theory Spec2Isabelle
  imports Main "HOL-Library.Word"
begin

section \<open>External-memory sparse page source (sparse\_page\_source.cc)\<close>

text \<open>
  A shallow embedding of \<^verbatim>\<open>src/data/sparse_page_source.cc\<close>: the cache-shard
  resolver \<^verbatim>\<open>GetCacheShards\<close>, the cursor of \<^verbatim>\<open>SparsePageSource\<close>
  (\<^verbatim>\<open>Next\<close>, \<^verbatim>\<open>BeforeFirst\<close>, \<^verbatim>\<open>Value\<close>) and the two cache builders
  \<^verbatim>\<open>CreateRowPage\<close> and \<^verbatim>\<open>CreatePageFromDMatrix\<close>.

  Conventions. \<^verbatim>\<open>size_t\<close> and \<^verbatim>\<open>uint64_t\<close> counters are \<open>64 word\<close>,
  \<^verbatim>\<open>bst_uint\<close> and \<^verbatim>\<open>uint32_t\<close> are \<open>32 word\<close>, so \<open>+\<close> wraps as in C++.
  A C++ member \<^verbatim>\<open>x_\<close> is written \<open>x_m\<close>. Positions in a vector are \<open>nat\<close>. A fatal \<^verbatim>\<open>CHECK\<close>/\<^verbatim>\<open>LOG(FATAL)\<close> and an
  access outside a vector are values of the type \<open>error\<close>. Timing and console logging
  (\<^verbatim>\<open>dmlc::GetTime\<close>, \<^verbatim>\<open>LOG(CONSOLE)\<close>) have no effect on the data and are left out.
\<close>

datatype error =
    BadCacheSpec       \<comment> \<open>\<^verbatim>\<open>CHECK_NE(cache_shards.size(), 0U)\<close> failed\<close>
  | UnknownPageType    \<comment> \<open>\<^verbatim>\<open>LOG(FATAL) << "Unknown page type: "\<close>\<close>
  | GroupInvariant     \<comment> \<open>\<^verbatim>\<open>CHECK(info.qids_.empty() || info.qids_.size() == info.num_row_)\<close> failed\<close>
  | OutOfBounds        \<comment> \<open>undefined behaviour: element access outside a vector\<close>

subsection \<open>Pages and the per-shard prefetcher\<close>

text \<open>
  \<^verbatim>\<open>SparsePage\<close> is declared in a header that is not part of the file. The cursor
  only writes the field \<^verbatim>\<open>base_rowid\<close> and calls \<^verbatim>\<open>Size()\<close>; the rest of a page
  is the opaque \<open>payload\<close>, and \<^verbatim>\<open>Size\<close> is a parameter of the functions that call it.
\<close>

record 'd SparsePage =
  base_rowid :: "64 word"
  payload :: 'd

text \<open>
  Modelled from the spec: \<^verbatim>\<open>dmlc::ThreadedIter<SparsePage>\<close>, the bounded prefetch
  pipeline of section 4.2, which is not under src/. Seen from the consumer thread it is
  the sequence of pages that the producer decodes from the shard file starting at
  \<^verbatim>\<open>fbegin\<close>: \<open>iter_Next\<close> hands out the next one or reports end-of-stream,
  \<open>iter_Recycle\<close> returns a page buffer to the free list, and \<open>iter_BeforeFirst\<close>
  rewinds the file to \<^verbatim>\<open>fbegin\<close>.
\<close>

record 'd ThreadedIter =
  stream :: "'d SparsePage list"
  consumed :: nat
  free_cells :: nat

definition iter_Next :: "'d ThreadedIter \<Rightarrow> 'd SparsePage option \<times> 'd ThreadedIter" where
  "iter_Next it =
     (if consumed it < length (stream it)
      then (Some (stream it ! consumed it), it\<lparr>consumed := consumed it + 1\<rparr>)
      else (None, it))"

definition iter_Recycle :: "'d ThreadedIter \<Rightarrow> 'd ThreadedIter" where
  "iter_Recycle it = it\<lparr>free_cells := free_cells it + 1\<rparr>"

definition iter_BeforeFirst :: "'d ThreadedIter \<Rightarrow> 'd ThreadedIter" where
  "iter_BeforeFirst it = it\<lparr>consumed := 0\<rparr>"

subsection \<open>The cursor of SparsePageSource\<close>

record 'd SparsePageSource =
  base_rowid_m :: "64 word"
  page_m :: "'d SparsePage option"
  clock_ptr_m :: nat
  prefetchers_m :: "'d ThreadedIter list"

text \<open>
  \<^verbatim>\<open>SparsePageSource::Next\<close>. The result is \<open>None\<close> where the source indexes
  \<^verbatim>\<open>prefetchers_\<close> out of range or computes \<^verbatim>\<open>% 0\<close>; the constructor's
  \<^verbatim>\<open>CHECK_NE\<close> excludes both for a constructed reader.
\<close>

definition Next ::
  "('d SparsePage \<Rightarrow> 64 word) \<Rightarrow> 'd SparsePageSource \<Rightarrow> (bool \<times> 'd SparsePageSource) option" where
  "Next Size s =
     (let n = length (prefetchers_m s) in
      if n = 0 \<or> n \<le> clock_ptr_m s then None
      else
        let s1 = (case page_m s of
                    None \<Rightarrow> s
                  | Some p \<Rightarrow>
                      s\<lparr>prefetchers_m :=
                          (prefetchers_m s)[(clock_ptr_m s + n - 1) mod n :=
                             iter_Recycle (prefetchers_m s ! ((clock_ptr_m s + n - 1) mod n))],
                        page_m := None\<rparr>)
        in case iter_Next (prefetchers_m s1 ! clock_ptr_m s1) of
             (None, it) \<Rightarrow>
               Some (False, s1\<lparr>prefetchers_m := (prefetchers_m s1)[clock_ptr_m s1 := it]\<rparr>)
           | (Some p, it) \<Rightarrow>
               let p' = p\<lparr>base_rowid := base_rowid_m s1\<rparr> in
               Some (True,
                     s1\<lparr>prefetchers_m := (prefetchers_m s1)[clock_ptr_m s1 := it],
                        page_m := Some p',
                        base_rowid_m := base_rowid_m s1 + Size p',
                        clock_ptr_m := (clock_ptr_m s1 + 1) mod n\<rparr>))"

definition BeforeFirst :: "'d SparsePageSource \<Rightarrow> 'd SparsePageSource" where
  "BeforeFirst s =
     s\<lparr>base_rowid_m := 0, clock_ptr_m := 0,
       prefetchers_m := map iter_BeforeFirst (prefetchers_m s)\<rparr>"

definition Value :: "'d SparsePageSource \<Rightarrow> 'd SparsePage option" where
  "Value s = page_m s"

text \<open>
  The consumer's loop \<^verbatim>\<open>while (source.Next()) { use(source.Value()); }\<close>: one pass
  over the cache. It returns the pages seen, in order, and the state in which
  \<^verbatim>\<open>Next\<close> returned false. \<open>remaining\<close> (the pages not yet handed out) is the
  measure under which the loop terminates.
\<close>

definition remaining :: "'d SparsePageSource \<Rightarrow> nat" where
  "remaining s = sum_list (map (\<lambda>it. length (stream it) - consumed it) (prefetchers_m s))"

lemma map_update_same: "(map f xs)[i := f (xs ! i)] = map f xs"
  by (metis list_update_id map_update)

lemma Next_True_remaining:
  assumes "Next Size s = Some (True, s')"
  shows "remaining s' < remaining s"
proof -
  let ?n = "length (prefetchers_m s)"
  let ?c = "clock_ptr_m s"
  let ?rem = "\<lambda>it::'d ThreadedIter. length (stream it) - consumed it"
  from assms have c: "?c < ?n"
    by (auto simp: Next_def Let_def split: if_splits)
  define pf1 where "pf1 = (case page_m s of None \<Rightarrow> prefetchers_m s
     | Some p \<Rightarrow> (prefetchers_m s)[(?c + ?n - 1) mod ?n :=
                    iter_Recycle (prefetchers_m s ! ((?c + ?n - 1) mod ?n))])"
  have m1: "map ?rem pf1 = map ?rem (prefetchers_m s)"
    using map_update_same[of ?rem "prefetchers_m s" "(?c + ?n - 1) mod ?n"]
    by (auto simp: pf1_def map_update iter_Recycle_def split: option.splits)
  have l1: "length pf1 = ?n" by (simp add: pf1_def split: option.splits)
  from assms c have lt: "consumed (pf1 ! ?c) < length (stream (pf1 ! ?c))"
    and pf': "prefetchers_m s' = pf1[?c := (pf1 ! ?c)\<lparr>consumed := consumed (pf1 ! ?c) + 1\<rparr>]"
    by (auto simp: Next_def Let_def pf1_def iter_Next_def
             split: if_splits option.splits prod.splits)
  have "map ?rem (prefetchers_m s') = (map ?rem pf1)[?c := ?rem (pf1 ! ?c) - 1]"
    by (simp add: pf' map_update)
  then have "remaining s' = sum_list ((map ?rem pf1)[?c := ?rem (pf1 ! ?c) - 1])"
    by (simp add: remaining_def)
  also have "\<dots> = sum_list (map ?rem pf1) + (?rem (pf1 ! ?c) - 1) - ?rem (pf1 ! ?c)"
    using c l1 by (subst sum_list_update) simp_all
  also have "\<dots> < sum_list (map ?rem pf1)"
  proof -
    have "?rem (pf1 ! ?c) \<le> sum_list (map ?rem pf1)"
      using c l1
      by (intro member_le_sum_list)
         (auto simp: in_set_conv_nth intro!: image_eqI[where x="pf1 ! ?c"])
    with lt show ?thesis by simp
  qed
  finally show ?thesis by (simp add: remaining_def m1)
qed

function drain ::
  "('d SparsePage \<Rightarrow> 64 word) \<Rightarrow> 'd SparsePageSource \<Rightarrow>
     ('d SparsePage list \<times> 'd SparsePageSource) option" where
  "drain Size s =
     (case Next Size s of
        None \<Rightarrow> None
      | Some (b, s') \<Rightarrow>
          if b then
            (case Value s' of
               None \<Rightarrow> None
             | Some p \<Rightarrow> map_option (\<lambda>(ps, t). (p # ps, t)) (drain Size s'))
          else Some ([], s'))"
  by pat_completeness auto
termination
  by (relation "measure (\<lambda>(Size, s). remaining s)") (auto simp: Next_True_remaining)

text \<open>\<open>n\<close> further calls of \<^verbatim>\<open>Next\<close>, with the value each one returned.\<close>

fun repeat_Next ::
  "('d SparsePage \<Rightarrow> 64 word) \<Rightarrow> nat \<Rightarrow> 'd SparsePageSource \<Rightarrow>
     (bool list \<times> 'd SparsePageSource) option" where
  "repeat_Next Size 0 s = Some ([], s)"
| "repeat_Next Size (Suc n) s =
     (case Next Size s of
        None \<Rightarrow> None
      | Some (b, s') \<Rightarrow> map_option (\<lambda>(bs, t). (b # bs, t)) (repeat_Next Size n s'))"

text \<open>
  The round-robin layout that the claims speak of: slot \<open>m\<close> of a pass is page
  \<open>m div k\<close> of shard \<open>m mod k\<close>; it exists when that shard file holds so many pages.
  \<open>spec_pass\<close> lists \<open>n\<close> consecutive slots from slot \<open>m\<close>, each page carrying the
  running row offset.
\<close>

definition spec_slot_page :: "'a list list \<Rightarrow> nat \<Rightarrow> 'a" where
  "spec_slot_page files m = files ! (m mod length files) ! (m div length files)"

definition spec_slot_ok :: "'a list list \<Rightarrow> nat \<Rightarrow> bool" where
  "spec_slot_ok files m \<longleftrightarrow> m div length files < length (files ! (m mod length files))"

fun spec_pass ::
  "('d SparsePage \<Rightarrow> 64 word) \<Rightarrow> 'd SparsePage list list \<Rightarrow> nat \<Rightarrow> nat \<Rightarrow> 64 word \<Rightarrow>
     'd SparsePage list" where
  "spec_pass Size files 0 m b = []"
| "spec_pass Size files (Suc n) m b =
     (let p = (spec_slot_page files m)\<lparr>base_rowid := b\<rparr>
      in p # spec_pass Size files n (Suc m) (b + Size p))"

definition rr_state :: "'d SparsePage list list \<Rightarrow> nat \<Rightarrow> 'd SparsePageSource \<Rightarrow> bool" where
  "rr_state files m s \<longleftrightarrow>
     files \<noteq> [] \<and>
     map stream (prefetchers_m s) = files \<and>
     clock_ptr_m s = m mod length files \<and>
     map consumed (prefetchers_m s) =
       map (\<lambda>i. m div length files + (if i < m mod length files then 1 else 0))
           [0..<length files]"

text \<open>
  A small cache for instantiating the theorems: three shard files holding two, one and two
  pages; the payload of a page is its row count, and every page comes off the disk with a
  stale \<^verbatim>\<open>base_rowid\<close> of 77.
\<close>

definition example_Size :: "nat SparsePage \<Rightarrow> 64 word" where
  "example_Size p = of_nat (payload p)"

definition example_shard :: "nat list \<Rightarrow> nat ThreadedIter" where
  "example_shard rows =
     \<lparr>stream = map (\<lambda>n. \<lparr>base_rowid = 77, payload = n\<rparr>) rows, consumed = 0, free_cells = 0\<rparr>"

definition example_source :: "nat SparsePageSource" where
  "example_source =
     \<lparr>base_rowid_m = 0, page_m = None, clock_ptr_m = 0,
      prefetchers_m = [example_shard [10, 11], example_shard [20], example_shard [30, 31]]\<rparr>"

section \<open>Properties of the cursor\<close>

subsection \<open>One call of Next\<close>

lemma Next_ok:
  assumes c: "clock_ptr_m s < length (prefetchers_m s)"
    and lt: "consumed (prefetchers_m s ! clock_ptr_m s) < length (stream (prefetchers_m s ! clock_ptr_m s))"
  defines "p \<equiv> (stream (prefetchers_m s ! clock_ptr_m s) ! consumed (prefetchers_m s ! clock_ptr_m s))\<lparr>base_rowid := base_rowid_m s\<rparr>"
  shows "\<exists>s'. Next Size s = Some (True, s')
           \<and> map stream (prefetchers_m s') = map stream (prefetchers_m s)
           \<and> map consumed (prefetchers_m s') =
               (map consumed (prefetchers_m s))[clock_ptr_m s := Suc (consumed (prefetchers_m s ! clock_ptr_m s))]
           \<and> page_m s' = Some p
           \<and> base_rowid_m s' = base_rowid_m s + Size p
           \<and> clock_ptr_m s' = (clock_ptr_m s + 1) mod length (prefetchers_m s)"
proof -
  let ?n = "length (prefetchers_m s)"
  let ?c = "clock_ptr_m s"
  let ?r = "(?c + ?n - 1) mod ?n"
  define pf1 where "pf1 = (case page_m s of None \<Rightarrow> prefetchers_m s
     | Some p \<Rightarrow> (prefetchers_m s)[?r := iter_Recycle (prefetchers_m s ! ?r)])"
  have l1: "length pf1 = ?n" by (simp add: pf1_def split: option.splits)
  have st1: "map stream pf1 = map stream (prefetchers_m s)"
    using map_update_same[of stream "prefetchers_m s" ?r]
    by (auto simp: pf1_def map_update iter_Recycle_def split: option.splits)
  have co1: "map consumed pf1 = map consumed (prefetchers_m s)"
    using map_update_same[of consumed "prefetchers_m s" ?r]
    by (auto simp: pf1_def map_update iter_Recycle_def split: option.splits)
  have sc: "stream (pf1 ! ?c) = stream (prefetchers_m s ! ?c)"
    using c l1 arg_cong[OF st1, of "\<lambda>xs. xs ! ?c"] by simp
  have cc: "consumed (pf1 ! ?c) = consumed (prefetchers_m s ! ?c)"
    using c l1 arg_cong[OF co1, of "\<lambda>xs. xs ! ?c"] by simp
  define s' where "s' = s\<lparr>prefetchers_m := pf1[?c := (pf1 ! ?c)\<lparr>consumed := consumed (pf1 ! ?c) + 1\<rparr>],
                        page_m := Some p, base_rowid_m := base_rowid_m s + Size p,
                        clock_ptr_m := (?c + 1) mod ?n\<rparr>"
  have "Next Size s = Some (True, s')"
    using c lt sc cc
    by (auto simp: Next_def Let_def pf1_def s'_def p_def iter_Next_def split: option.splits)
  moreover have "map stream (prefetchers_m s') = map stream (prefetchers_m s)"
    using map_update_same[of stream pf1 ?c] by (simp add: s'_def map_update st1[symmetric])
  moreover have "map consumed (prefetchers_m s') =
      (map consumed (prefetchers_m s))[?c := Suc (consumed (prefetchers_m s ! ?c))]"
    by (simp add: s'_def map_update co1 cc)
  ultimately show ?thesis by (simp add: s'_def)
qed

lemma Next_end:
  assumes c: "clock_ptr_m s < length (prefetchers_m s)"
    and ge: "\<not> consumed (prefetchers_m s ! clock_ptr_m s) < length (stream (prefetchers_m s ! clock_ptr_m s))"
  shows "\<exists>s'. Next Size s = Some (False, s')
           \<and> map stream (prefetchers_m s') = map stream (prefetchers_m s)
           \<and> map consumed (prefetchers_m s') = map consumed (prefetchers_m s)
           \<and> page_m s' = None
           \<and> base_rowid_m s' = base_rowid_m s
           \<and> clock_ptr_m s' = clock_ptr_m s"
proof -
  let ?n = "length (prefetchers_m s)"
  let ?c = "clock_ptr_m s"
  let ?r = "(?c + ?n - 1) mod ?n"
  define pf1 where "pf1 = (case page_m s of None \<Rightarrow> prefetchers_m s
     | Some p \<Rightarrow> (prefetchers_m s)[?r := iter_Recycle (prefetchers_m s ! ?r)])"
  have l1: "length pf1 = ?n" by (simp add: pf1_def split: option.splits)
  have st1: "map stream pf1 = map stream (prefetchers_m s)"
    using map_update_same[of stream "prefetchers_m s" ?r]
    by (auto simp: pf1_def map_update iter_Recycle_def split: option.splits)
  have co1: "map consumed pf1 = map consumed (prefetchers_m s)"
    using map_update_same[of consumed "prefetchers_m s" ?r]
    by (auto simp: pf1_def map_update iter_Recycle_def split: option.splits)
  have sc: "stream (pf1 ! ?c) = stream (prefetchers_m s ! ?c)"
    using c l1 arg_cong[OF st1, of "\<lambda>xs. xs ! ?c"] by simp
  have cc: "consumed (pf1 ! ?c) = consumed (prefetchers_m s ! ?c)"
    using c l1 arg_cong[OF co1, of "\<lambda>xs. xs ! ?c"] by simp
  define s' where "s' = s\<lparr>prefetchers_m := pf1, page_m := None\<rparr>"
  have "Next Size s = Some (False, s')"
    using c ge sc cc
    by (auto simp: Next_def Let_def pf1_def s'_def iter_Next_def split: option.splits)
  then show ?thesis by (simp add: s'_def st1 co1)
qed


lemma rr_consumed_step:
  assumes "0 < k"
  shows "(map (\<lambda>i. m div k + (if i < m mod k then 1 else 0)) [0..<k])[m mod k := Suc (m div k)]
       = map (\<lambda>i. Suc m div k + (if i < Suc m mod k then 1 else 0)) [0..<k]"
proof (rule nth_equalityI)
  show "length ((map (\<lambda>i. m div k + (if i < m mod k then 1 else 0)) [0..<k])[m mod k := Suc (m div k)])
      = length (map (\<lambda>i. Suc m div k + (if i < Suc m mod k then 1 else 0)) [0..<k])"
    by simp
next
  fix i
  assume "i < length ((map (\<lambda>i. m div k + (if i < m mod k then 1 else 0)) [0..<k])[m mod k := Suc (m div k)])"
  then have i: "i < k" by simp
  have mk: "m mod k < k" using assms by simp
  show "(map (\<lambda>i. m div k + (if i < m mod k then 1 else 0)) [0..<k])[m mod k := Suc (m div k)] ! i
      = map (\<lambda>i. Suc m div k + (if i < Suc m mod k then 1 else 0)) [0..<k] ! i"
  proof (cases "Suc (m mod k) = k")
    case True
    then have "Suc m mod k = 0" "Suc m div k = Suc (m div k)"
      by (simp_all add: mod_Suc div_Suc)
    with i mk True show ?thesis
      by (cases "i = m mod k") (auto simp: nth_list_update)
  next
    case False
    then have "Suc m mod k = Suc (m mod k)" "Suc m div k = m div k"
      by (simp_all add: mod_Suc div_Suc)
    with i mk False show ?thesis
      by (cases "i = m mod k") (auto simp: nth_list_update)
  qed
qed

lemma rr_state_length: "rr_state files m s \<Longrightarrow> length (prefetchers_m s) = length files"
  by (auto simp: rr_state_def dest: arg_cong[where f = length])

lemma rr_state_clock:
  assumes "rr_state files m s"
  shows "clock_ptr_m s < length (prefetchers_m s)"
    and "stream (prefetchers_m s ! clock_ptr_m s) = files ! (m mod length files)"
    and "consumed (prefetchers_m s ! clock_ptr_m s) = m div length files"
proof -
  let ?k = "length files"
  from assms have k: "0 < ?k"
    and cl: "clock_ptr_m s = m mod ?k"
    and st: "map stream (prefetchers_m s) = files"
    and co: "map consumed (prefetchers_m s) =
       map (\<lambda>i. m div ?k + (if i < m mod ?k then 1 else 0)) [0..<?k]"
    by (simp_all add: rr_state_def)
  note len = rr_state_length[OF assms]
  from k have mk: "m mod ?k < ?k" by simp
  show "clock_ptr_m s < length (prefetchers_m s)" using mk cl len by simp
  show "stream (prefetchers_m s ! clock_ptr_m s) = files ! (m mod length files)"
    using arg_cong[OF st, of "\<lambda>xs. xs ! (m mod ?k)"] mk len cl by simp
  show "consumed (prefetchers_m s ! clock_ptr_m s) = m div length files"
    using arg_cong[OF co, of "\<lambda>xs. xs ! (m mod ?k)"] mk len cl by simp
qed

lemma rr_step_ok:
  assumes rr: "rr_state files m s" and ok: "spec_slot_ok files m"
  shows "\<exists>s'. Next Size s = Some (True, s') \<and> rr_state files (Suc m) s'
           \<and> page_m s' = Some ((spec_slot_page files m)\<lparr>base_rowid := base_rowid_m s\<rparr>)
           \<and> base_rowid_m s' =
               base_rowid_m s + Size ((spec_slot_page files m)\<lparr>base_rowid := base_rowid_m s\<rparr>)"
proof -
  let ?k = "length files"
  note f = rr_state_clock[OF rr]
  from rr have k: "0 < ?k"
    and cl: "clock_ptr_m s = m mod ?k"
    and st: "map stream (prefetchers_m s) = files"
    and co: "map consumed (prefetchers_m s) =
       map (\<lambda>i. m div ?k + (if i < m mod ?k then 1 else 0)) [0..<?k]"
    by (simp_all add: rr_state_def)
  note len = rr_state_length[OF rr]
  have lt: "consumed (prefetchers_m s ! clock_ptr_m s) < length (stream (prefetchers_m s ! clock_ptr_m s))"
    using ok by (simp add: f spec_slot_ok_def)
  from Next_ok[OF f(1) lt, of Size] obtain s' where
    n: "Next Size s = Some (True, s')"
    and st': "map stream (prefetchers_m s') = map stream (prefetchers_m s)"
    and co': "map consumed (prefetchers_m s') =
               (map consumed (prefetchers_m s))[clock_ptr_m s := Suc (consumed (prefetchers_m s ! clock_ptr_m s))]"
    and pg: "page_m s' = Some ((stream (prefetchers_m s ! clock_ptr_m s) ! consumed (prefetchers_m s ! clock_ptr_m s))\<lparr>base_rowid := base_rowid_m s\<rparr>)"
    and br: "base_rowid_m s' = base_rowid_m s + Size ((stream (prefetchers_m s ! clock_ptr_m s) ! consumed (prefetchers_m s ! clock_ptr_m s))\<lparr>base_rowid := base_rowid_m s\<rparr>)"
    and cl': "clock_ptr_m s' = (clock_ptr_m s + 1) mod length (prefetchers_m s)"
    by blast
  have "clock_ptr_m s' = Suc m mod ?k"
    using cl' len cl by (simp add: mod_Suc_eq)
  moreover have "map consumed (prefetchers_m s') =
       map (\<lambda>i. Suc m div ?k + (if i < Suc m mod ?k then 1 else 0)) [0..<?k]"
  proof -
    have "consumed (prefetchers_m s ! (m mod ?k)) = m div ?k"
      using f(3) cl by simp
    with co' rr_consumed_step[OF k, of m] show ?thesis by (simp add: co cl)
  qed
  ultimately have "rr_state files (Suc m) s'"
    using k st st' by (simp add: rr_state_def)
  with n pg br show ?thesis by (auto simp: f spec_slot_page_def)
qed

lemma rr_step_end:
  assumes rr: "rr_state files m s" and ok: "\<not> spec_slot_ok files m"
  shows "\<exists>s'. Next Size s = Some (False, s') \<and> rr_state files m s'
           \<and> page_m s' = None \<and> base_rowid_m s' = base_rowid_m s"
proof -
  note f = rr_state_clock[OF rr]
  have ge: "\<not> consumed (prefetchers_m s ! clock_ptr_m s) < length (stream (prefetchers_m s ! clock_ptr_m s))"
    using ok by (simp add: f spec_slot_ok_def)
  from Next_end[OF f(1) ge, of Size] obtain s' where
    "Next Size s = Some (False, s')"
    "map stream (prefetchers_m s') = map stream (prefetchers_m s)"
    "map consumed (prefetchers_m s') = map consumed (prefetchers_m s)"
    "page_m s' = None" "base_rowid_m s' = base_rowid_m s" "clock_ptr_m s' = clock_ptr_m s"
    by blast
  with rr show ?thesis by (auto simp: rr_state_def)
qed

lemma rr_state_BeforeFirst:
  assumes "prefetchers_m s \<noteq> []"
  shows "rr_state (map stream (prefetchers_m s)) 0 (BeforeFirst s)"
  using assms
  by (auto simp: rr_state_def BeforeFirst_def iter_BeforeFirst_def comp_def intro!: nth_equalityI)


lemma drain_rr:
  assumes "rr_state files m s" and "\<forall>i. m \<le> i \<and> i < L \<longrightarrow> spec_slot_ok files i"
    and "\<not> spec_slot_ok files L" and "m \<le> L"
  shows "\<exists>t. drain Size s = Some (spec_pass Size files (L - m) m (base_rowid_m s), t)
           \<and> rr_state files L t"
  using assms
proof (induction "L - m" arbitrary: m s)
  case 0
  then have [simp]: "m = L" by simp
  from rr_step_end[of files L s Size] 0 obtain s' where
    "Next Size s = Some (False, s')" "rr_state files L s'" by auto
  then show ?case by (simp add: drain.simps[of Size s])
next
  case (Suc d)
  then have ok: "spec_slot_ok files m" and d: "d = L - Suc m" and le: "Suc m \<le> L" by auto
  from rr_step_ok[OF Suc.prems(1) ok, of Size] obtain s' where
    n: "Next Size s = Some (True, s')" and rr': "rr_state files (Suc m) s'"
    and pg: "page_m s' = Some ((spec_slot_page files m)\<lparr>base_rowid := base_rowid_m s\<rparr>)"
    and br: "base_rowid_m s' =
               base_rowid_m s + Size ((spec_slot_page files m)\<lparr>base_rowid := base_rowid_m s\<rparr>)"
    by blast
  from Suc.hyps(1)[OF d rr' _ Suc.prems(3) le] Suc.prems(2) obtain t where
    t: "drain Size s' = Some (spec_pass Size files (L - Suc m) (Suc m) (base_rowid_m s'), t)"
    and rrt: "rr_state files L t" by auto
  have "L - m = Suc (L - Suc m)" using le by simp
  then have "spec_pass Size files (L - m) m (base_rowid_m s) =
      (spec_slot_page files m)\<lparr>base_rowid := base_rowid_m s\<rparr>
        # spec_pass Size files (L - Suc m) (Suc m) (base_rowid_m s')"
    by (simp add: br Let_def)
  with n pg t rrt show ?case
    by (simp add: drain.simps[of Size s] Value_def)
qed

lemma repeat_Next_end:
  assumes "rr_state files L s" and "\<not> spec_slot_ok files L"
  shows "\<exists>t. repeat_Next Size n s = Some (replicate n False, t) \<and> rr_state files L t"
  using assms
proof (induction n arbitrary: s)
  case 0
  then show ?case by simp
next
  case (Suc n)
  from rr_step_end[OF Suc.prems, of Size] obtain s' where
    n: "Next Size s = Some (False, s')" and rr': "rr_state files L s'" by blast
  from Suc.IH[OF rr' Suc.prems(2)] obtain t where
    "repeat_Next Size n s' = Some (replicate n False, t)" "rr_state files L t" by blast
  with n show ?case by simp
qed

lemma length_stamped [simp]: "length (spec_pass Size files n m b) = n"
  by (induction n arbitrary: m b) (simp_all add: Let_def)

lemma spec_pass_nth:
  "j < n \<Longrightarrow> \<exists>b'. spec_pass Size files n m b ! j = (spec_slot_page files (m + j))\<lparr>base_rowid := b'\<rparr>"
proof (induction n arbitrary: m b j)
  case 0
  then show ?case by simp
next
  case (Suc n)
  show ?case
  proof (cases j)
    case 0
    then show ?thesis by (auto simp: Let_def)
  next
    case (Suc j')
    with Suc.prems have "j' < n" by simp
    from Suc.IH[OF this, of "Suc m"] Suc show ?thesis by (simp add: Let_def)
  qed
qed

lemma spec_pass_base_rowid:
  "j < n \<Longrightarrow> base_rowid (spec_pass Size files n m b ! j)
        = b + sum_list (map Size (take j (spec_pass Size files n m b)))"
proof (induction n arbitrary: m b j)
  case 0
  then show ?case by simp
next
  case (Suc n)
  show ?case
  proof (cases j)
    case 0
    then show ?thesis by (simp add: Let_def)
  next
    case (Suc j')
    with Suc.prems have "j' < n" by simp
    from Suc.IH[OF this] Suc show ?thesis by (simp add: Let_def add.assoc)
  qed
qed

lemma first_missing_slot:
  assumes "files \<noteq> []"
  shows "\<exists>L. \<not> spec_slot_ok files L \<and> (\<forall>i<L. spec_slot_ok files i)"
proof -
  have "\<not> spec_slot_ok files (length files * length (files ! 0))"
    using assms by (simp add: spec_slot_ok_def)
  then have "\<exists>L. \<not> spec_slot_ok files L" ..
  then obtain L where "\<not> spec_slot_ok files L" "\<forall>i<L. \<not> \<not> spec_slot_ok files i"
    using exists_least_iff[of "\<lambda>L. \<not> spec_slot_ok files L"] by blast
  then show ?thesis by auto
qed

lemma pass_from_BeforeFirst:
  assumes "prefetchers_m s \<noteq> []"
  shows "\<exists>L t. \<not> spec_slot_ok (map stream (prefetchers_m s)) L
           \<and> (\<forall>i<L. spec_slot_ok (map stream (prefetchers_m s)) i)
           \<and> drain Size (BeforeFirst s) =
                Some (spec_pass Size (map stream (prefetchers_m s)) L 0 0, t)
           \<and> rr_state (map stream (prefetchers_m s)) L t"
proof -
  let ?files = "map stream (prefetchers_m s)"
  from assms have "?files \<noteq> []" by simp
  from first_missing_slot[OF this] obtain L where
    L: "\<not> spec_slot_ok ?files L" "\<forall>i<L. spec_slot_ok ?files i" by blast
  have b0: "base_rowid_m (BeforeFirst s) = 0" by (simp add: BeforeFirst_def)
  from drain_rr[OF rr_state_BeforeFirst[OF assms] _ L(1), of Size] L(2) b0
  obtain t where "drain Size (BeforeFirst s) = Some (spec_pass Size ?files L 0 0, t)"
    "rr_state ?files L t" by auto
  with L show ?thesis by blast
qed

lemma Next_clock:
  "Next Size u = Some (b, u') \<Longrightarrow>
     clock_ptr_m u' = (if b then (clock_ptr_m u + 1) mod length (prefetchers_m u) else clock_ptr_m u)"
  by (auto simp: Next_def Let_def iter_Next_def split: if_splits option.splits prod.splits)

lemma Next_stamp:
  "Next Size u = Some (True, u') \<Longrightarrow>
     \<exists>p. Value u' = Some p \<and> base_rowid p = base_rowid_m u
        \<and> base_rowid_m u' = base_rowid_m u + Size p"
  by (auto simp: Next_def Let_def iter_Next_def Value_def split: if_splits option.splits prod.splits)

text \<open>
  C1. For a reader over \<open>k \<ge> 1\<close> shards, the pass that starts at \<^verbatim>\<open>BeforeFirst\<close>
  terminates and yields exactly the slots \<open>0, 1, \<dots>, L - 1\<close> of the round-robin layout
  (slot \<open>j\<close> is page \<open>j div k\<close> of shard \<open>j mod k\<close>), where \<open>L\<close> is the first slot whose
  shard has no such page, whatever the other shards still hold; from the state reached,
  any number of further calls of \<^verbatim>\<open>Next\<close> return false. The clock pointer moves to the
  next shard on a successful call and stays where it is on a failed one.
\<close>

theorem C1_round_robin_pass:
  "(prefetchers_m s \<noteq> [] \<longrightarrow>
      (\<exists>ps t. drain Size (BeforeFirst s) = Some (ps, t)
         \<and> (\<forall>j<length ps. spec_slot_ok (map stream (prefetchers_m s)) j
               \<and> (\<exists>b. ps ! j = (spec_slot_page (map stream (prefetchers_m s)) j)\<lparr>base_rowid := b\<rparr>))
         \<and> \<not> spec_slot_ok (map stream (prefetchers_m s)) (length ps)
         \<and> (\<forall>n. \<exists>t'. repeat_Next Size n t = Some (replicate n False, t'))))
   \<and> (\<forall>u b u'. Next Size u = Some (b, u') \<longrightarrow>
         clock_ptr_m u' =
           (if b then (clock_ptr_m u + 1) mod length (prefetchers_m u) else clock_ptr_m u))"
proof (intro conjI impI allI)
  assume ne: "prefetchers_m s \<noteq> []"
  let ?files = "map stream (prefetchers_m s)"
  from pass_from_BeforeFirst[OF ne, of Size] obtain L t where
    L: "\<not> spec_slot_ok ?files L" "\<forall>i<L. spec_slot_ok ?files i"
    and d: "drain Size (BeforeFirst s) = Some (spec_pass Size ?files L 0 0, t)"
    and rr: "rr_state ?files L t" by blast
  have "\<forall>j<length (spec_pass Size ?files L 0 0). spec_slot_ok ?files j
      \<and> (\<exists>b. spec_pass Size ?files L 0 0 ! j = (spec_slot_page ?files j)\<lparr>base_rowid := b\<rparr>)"
    using L(2) spec_pass_nth[of _ L Size ?files 0 0] by simp
  moreover have "\<forall>n. \<exists>t'. repeat_Next Size n t = Some (replicate n False, t')"
    using repeat_Next_end[OF rr L(1), of Size] by blast
  ultimately show "\<exists>ps t. drain Size (BeforeFirst s) = Some (ps, t)
         \<and> (\<forall>j<length ps. spec_slot_ok ?files j
               \<and> (\<exists>b. ps ! j = (spec_slot_page ?files j)\<lparr>base_rowid := b\<rparr>))
         \<and> \<not> spec_slot_ok ?files (length ps)
         \<and> (\<forall>n. \<exists>t'. repeat_Next Size n t = Some (replicate n False, t'))"
    using d L(1) by (intro exI[of _ "spec_pass Size ?files L 0 0"] exI[of _ t]) simp
next
  fix u b u'
  assume "Next Size u = Some (b, u')"
  then show "clock_ptr_m u' =
      (if b then (clock_ptr_m u + 1) mod length (prefetchers_m u) else clock_ptr_m u)"
    by (rule Next_clock)
qed

theorem C1_round_robin_pass_witness:
  "prefetchers_m example_source \<noteq> []
   \<and> map_option (map payload \<circ> fst) (drain example_Size (BeforeFirst example_source))
       = Some [10, 20, 30, 11]
   \<and> (\<exists>ps t. drain example_Size (BeforeFirst example_source) = Some (ps, t)
         \<and> (\<forall>j<length ps. spec_slot_ok (map stream (prefetchers_m example_source)) j
               \<and> (\<exists>b. ps ! j =
                     (spec_slot_page (map stream (prefetchers_m example_source)) j)\<lparr>base_rowid := b\<rparr>))
         \<and> \<not> spec_slot_ok (map stream (prefetchers_m example_source)) (length ps)
         \<and> (\<forall>n. \<exists>t'. repeat_Next example_Size n t = Some (replicate n False, t')))"
proof -
  have ne: "prefetchers_m example_source \<noteq> []"
    by (simp add: example_source_def)
  have ev: "map_option (map payload \<circ> fst) (drain example_Size (BeforeFirst example_source))
       = Some [10, 20, 30, 11]"
    by code_simp
  from C1_round_robin_pass[of example_source example_Size] ne ev show ?thesis
    by blast
qed

lemma unat_sum_list_no_overflow:
  fixes ws :: "64 word list"
  assumes "sum_list (map unat ws) < 2 ^ 64"
  shows "unat (sum_list ws) = sum_list (map unat ws)"
  using assms
proof (induction ws)
  case Nil
  then show ?case by simp
next
  case (Cons w ws)
  then have "unat (sum_list ws) = sum_list (map unat ws)" by simp
  moreover from Cons.prems have "unat w + sum_list (map unat ws) < 2 ^ LENGTH(64)" by simp
  ultimately show ?case by (simp add: unat_add_lem[THEN iffD1])
qed

text \<open>
  C2. A successful \<^verbatim>\<open>Next\<close> stamps the page it yields with the cursor's counter and
  then adds the page's row count to the counter. Hence, in the pass that starts at
  \<^verbatim>\<open>BeforeFirst\<close>, the \<open>j\<close>-th page carries the sum of the sizes of the pages
  yielded before it, starting from 0. The sum is the one the 64-bit counter computes; it
  is the sum of natural numbers whenever that stays below \<open>2\<^sup>6\<^sup>4\<close>.
\<close>

theorem C2_base_rowid_prefix_sums:
  "(\<forall>u u'. Next Size u = Some (True, u') \<longrightarrow>
      (\<exists>p. Value u' = Some p \<and> base_rowid p = base_rowid_m u
           \<and> base_rowid_m u' = base_rowid_m u + Size p))
   \<and> (prefetchers_m s \<noteq> [] \<longrightarrow>
        (\<exists>ps t. drain Size (BeforeFirst s) = Some (ps, t)
           \<and> (\<forall>j<length ps.
                 base_rowid (ps ! j) = sum_list (map Size (take j ps))
                 \<and> (sum_list (map (unat \<circ> Size) (take j ps)) < 2 ^ 64 \<longrightarrow>
                      unat (base_rowid (ps ! j)) = sum_list (map (unat \<circ> Size) (take j ps))))))"
proof (intro conjI impI allI)
  fix u u'
  assume "Next Size u = Some (True, u')"
  then show "\<exists>p. Value u' = Some p \<and> base_rowid p = base_rowid_m u
           \<and> base_rowid_m u' = base_rowid_m u + Size p"
    by (rule Next_stamp)
next
  assume ne: "prefetchers_m s \<noteq> []"
  let ?files = "map stream (prefetchers_m s)"
  from pass_from_BeforeFirst[OF ne, of Size] obtain L t where
    d: "drain Size (BeforeFirst s) = Some (spec_pass Size ?files L 0 0, t)" by blast
  let ?ps = "spec_pass Size ?files L 0 0"
  have "base_rowid (?ps ! j) = sum_list (map Size (take j ?ps))
      \<and> (sum_list (map (unat \<circ> Size) (take j ?ps)) < 2 ^ 64 \<longrightarrow>
            unat (base_rowid (?ps ! j)) = sum_list (map (unat \<circ> Size) (take j ?ps)))"
    if "j < length ?ps" for j
  proof -
    from that have "j < L" by simp
    from spec_pass_base_rowid[OF this, of Size ?files 0 0]
    have eq: "base_rowid (?ps ! j) = sum_list (map Size (take j ?ps))" by simp
    moreover have "unat (sum_list (map Size (take j ?ps))) = sum_list (map (unat \<circ> Size) (take j ?ps))"
      if "sum_list (map (unat \<circ> Size) (take j ?ps)) < 2 ^ 64"
      using unat_sum_list_no_overflow[of "map Size (take j ?ps)"] that by (simp add: comp_def)
    ultimately show ?thesis by simp
  qed
  with d show "\<exists>ps t. drain Size (BeforeFirst s) = Some (ps, t)
           \<and> (\<forall>j<length ps.
                 base_rowid (ps ! j) = sum_list (map Size (take j ps))
                 \<and> (sum_list (map (unat \<circ> Size) (take j ps)) < 2 ^ 64 \<longrightarrow>
                      unat (base_rowid (ps ! j)) = sum_list (map (unat \<circ> Size) (take j ps))))"
    by blast
qed

theorem C2_base_rowid_prefix_sums_witness:
  "prefetchers_m example_source \<noteq> []
   \<and> map_option (map base_rowid \<circ> fst) (drain example_Size (BeforeFirst example_source))
       = Some [0, 10, 30, 60]
   \<and> (\<exists>ps t. drain example_Size (BeforeFirst example_source) = Some (ps, t)
           \<and> (\<forall>j<length ps.
                 base_rowid (ps ! j) = sum_list (map example_Size (take j ps))
                 \<and> (sum_list (map (unat \<circ> example_Size) (take j ps)) < 2 ^ 64 \<longrightarrow>
                      unat (base_rowid (ps ! j))
                        = sum_list (map (unat \<circ> example_Size) (take j ps)))))"
proof -
  have ne: "prefetchers_m example_source \<noteq> []"
    by (simp add: example_source_def)
  have ev: "map_option (map base_rowid \<circ> fst) (drain example_Size (BeforeFirst example_source))
       = Some [0, 10, 30, 60]"
    by code_simp
  from C2_base_rowid_prefix_sums[of example_Size example_source] ne ev show ?thesis
    by blast
qed

lemma first_missing_slot_unique:
  assumes "\<not> spec_slot_ok files L" "\<forall>i<L. spec_slot_ok files i"
    and "\<not> spec_slot_ok files L'" "\<forall>i<L'. spec_slot_ok files i"
  shows "L = L'"
  using assms by (meson linorder_neqE_nat)

text \<open>
  C7. \<^verbatim>\<open>BeforeFirst\<close> sets the row counter and the clock pointer to 0 and rewinds
  every shard without touching the shard files. Therefore the pass after a full drain and
  a \<^verbatim>\<open>BeforeFirst\<close> yields the same pages, with the same \<^verbatim>\<open>base_rowid\<close> values,
  as the pass before.
\<close>

theorem C7_restart_same_pass:
  "base_rowid_m (BeforeFirst s) = 0
   \<and> clock_ptr_m (BeforeFirst s) = 0
   \<and> (\<forall>it \<in> set (prefetchers_m (BeforeFirst s)). consumed it = 0)
   \<and> map stream (prefetchers_m (BeforeFirst s)) = map stream (prefetchers_m s)
   \<and> (prefetchers_m s \<noteq> [] \<longrightarrow>
        (\<exists>ps t ps' t'. drain Size (BeforeFirst s) = Some (ps, t)
            \<and> drain Size (BeforeFirst t) = Some (ps', t')
            \<and> map base_rowid ps' = map base_rowid ps \<and> ps' = ps))"
proof (intro conjI impI)
  show "base_rowid_m (BeforeFirst s) = 0" "clock_ptr_m (BeforeFirst s) = 0"
    by (simp_all add: BeforeFirst_def)
  show "\<forall>it \<in> set (prefetchers_m (BeforeFirst s)). consumed it = 0"
    by (auto simp: BeforeFirst_def iter_BeforeFirst_def)
  show "map stream (prefetchers_m (BeforeFirst s)) = map stream (prefetchers_m s)"
    by (simp add: BeforeFirst_def iter_BeforeFirst_def comp_def)
next
  assume ne: "prefetchers_m s \<noteq> []"
  let ?files = "map stream (prefetchers_m s)"
  from pass_from_BeforeFirst[OF ne, of Size] obtain L t where
    L: "\<not> spec_slot_ok ?files L" "\<forall>i<L. spec_slot_ok ?files i"
    and d: "drain Size (BeforeFirst s) = Some (spec_pass Size ?files L 0 0, t)"
    and rr: "rr_state ?files L t" by blast
  from rr have ft: "map stream (prefetchers_m t) = ?files" and net: "prefetchers_m t \<noteq> []"
    by (auto simp: rr_state_def)
  from pass_from_BeforeFirst[OF net, of Size] obtain L' t' where
    L': "\<not> spec_slot_ok ?files L'" "\<forall>i<L'. spec_slot_ok ?files i"
    and d': "drain Size (BeforeFirst t) = Some (spec_pass Size ?files L' 0 0, t')"
    unfolding ft by blast
  have "L' = L" using first_missing_slot_unique[OF L' L] .
  with d d' show "\<exists>ps t ps' t'. drain Size (BeforeFirst s) = Some (ps, t)
            \<and> drain Size (BeforeFirst t) = Some (ps', t')
            \<and> map base_rowid ps' = map base_rowid ps \<and> ps' = ps"
    by auto
qed

theorem C7_restart_same_pass_witness:
  "prefetchers_m example_source \<noteq> []
   \<and> (\<exists>ps t ps' t'. drain example_Size (BeforeFirst example_source) = Some (ps, t)
            \<and> drain example_Size (BeforeFirst t) = Some (ps', t')
            \<and> map base_rowid ps = [0, 10, 30, 60]
            \<and> map base_rowid ps' = map base_rowid ps \<and> ps' = ps)"
proof -
  have ne: "prefetchers_m example_source \<noteq> []"
    by (simp add: example_source_def)
  have ev: "map_option (map base_rowid \<circ> fst) (drain example_Size (BeforeFirst example_source))
       = Some [0, 10, 30, 60]"
    by code_simp
  from C7_restart_same_pass[of example_source example_Size] ne ev show ?thesis
    by auto
qed

section \<open>The cache builders\<close>

subsection \<open>Resolving the shard prefixes\<close>

text \<open>
  \<^verbatim>\<open>std::isalpha(c, std::locale::classic())\<close>: in the classic "C" locale the
  alphabetic characters are the ASCII letters.
\<close>

definition isalpha :: "char \<Rightarrow> bool" where
  "isalpha c \<longleftrightarrow>
     (let n = (of_char c :: nat) in (65 \<le> n \<and> n \<le> 90) \<or> (97 \<le> n \<and> n \<le> 122))"

text \<open>
  \<^verbatim>\<open>GetCacheShards\<close>. The helper \<^verbatim>\<open>xgboost::common::Split\<close> lives in
  \<^verbatim>\<open>../common/common.h\<close>, which is not part of the file, so the splitter is the
  parameter \<open>split\<close>; \<open>win32\<close> says whether \<^verbatim>\<open>_WIN32\<close> or \<^verbatim>\<open>__CYGWIN__\<close> is
  defined. On that branch the source assigns to \<^verbatim>\<open>cache_shards[0]\<close> without looking
  at the size of the vector: on an empty vector this is an access out of bounds.
\<close>

definition GetCacheShards ::
  "(string \<Rightarrow> char \<Rightarrow> string list) \<Rightarrow> bool \<Rightarrow> string \<Rightarrow> error + string list" where
  "GetCacheShards split win32 cache_info =
     (if win32 \<and> length cache_info \<ge> 2 \<and> isalpha (cache_info ! 0)
          \<and> cache_info ! 1 = CHR '':''
      then
        let cache_shards = split (drop 2 cache_info) CHR '':'' in
        if cache_shards = [] then Inl OutOfBounds
        else Inr (cache_shards[0 := take 2 cache_info @ cache_shards ! 0])
      else Inr (split cache_info CHR '':''))"

text \<open>
  The two lines that open the constructor, \<^verbatim>\<open>CacheExist\<close> and both builders:
  \<^verbatim>\<open>cache_shards = GetCacheShards(cache_info); CHECK_NE(cache_shards.size(), 0U);\<close>
\<close>

definition checked_shards ::
  "(string \<Rightarrow> char \<Rightarrow> string list) \<Rightarrow> bool \<Rightarrow> string \<Rightarrow> error + string list" where
  "checked_shards split win32 cache_info =
     (case GetCacheShards split win32 cache_info of
        Inl e \<Rightarrow> Inl e
      | Inr cache_shards \<Rightarrow>
          if length cache_shards \<noteq> 0 then Inr cache_shards else Inl BadCacheSpec)"

text \<open>
  Modelled from the spec: \<^verbatim>\<open>xgboost::common::Split\<close>, which is not under src/.
  The spec fixes that a cache specification is a list of prefixes joined by \<open>:\<close>, that
  \<open>a:b:c\<close> gives \<open>[a, b, c]\<close> and that the empty string gives no prefix at all (it fails
  the \<^verbatim>\<open>CHECK_NE\<close>). \<open>Split\<close> reads items up to the next delimiter as long as input
  is left. It only instantiates the parameter \<open>split\<close> in concrete examples.
\<close>

fun Split :: "string \<Rightarrow> char \<Rightarrow> string list" where
  "Split [] delim = []"
| "Split (c # cs) delim =
     (if c = delim then [] # Split cs delim
      else (case Split cs delim of
              [] \<Rightarrow> [[c]]
            | item # items \<Rightarrow> (c # item) # items))"

text \<open>
  The constructor \<^verbatim>\<open>SparsePageSource::SparsePageSource\<close>: one prefetcher per shard,
  reading the file \<^verbatim>\<open>prefix + page_type\<close>. \<open>pages_of_file\<close> gives the pages that
  the format decodes from a file after its format tag; failures to open or to read the
  tag are not modelled.
\<close>

definition SparsePageSource_new ::
  "(string \<Rightarrow> char \<Rightarrow> string list) \<Rightarrow> bool \<Rightarrow> (string \<Rightarrow> 'd SparsePage list) \<Rightarrow>
     string \<Rightarrow> string \<Rightarrow> error + 'd SparsePageSource" where
  "SparsePageSource_new split win32 pages_of_file cache_info page_type =
     (case checked_shards split win32 cache_info of
        Inl e \<Rightarrow> Inl e
      | Inr cache_shards \<Rightarrow>
          Inr \<lparr>base_rowid_m = 0, page_m = None, clock_ptr_m = 0,
               prefetchers_m =
                 map (\<lambda>prefix. \<lparr>stream = pages_of_file (prefix @ page_type),
                                 consumed = 0, free_cells = 0\<rparr>) cache_shards\<rparr>)"

subsection \<open>Input blocks, metadata and the page interface\<close>

text \<open>
  \<^verbatim>\<open>dmlc::RowBlock<uint32_t>\<close>: the arrays are pointers, modelled as functions from
  the position to the element; a null pointer is \<open>None\<close>. The fields \<^verbatim>\<open>field\<close> and
  \<^verbatim>\<open>value\<close> are never read by this file and are left out. \<open>'f\<close> is the type of
  the floating-point numbers, which the builders only copy.
\<close>

record 'f RowBlock =
  size_rb :: nat
  offset :: "nat \<Rightarrow> 64 word"
  label :: "(nat \<Rightarrow> 'f) option"
  weight :: "(nat \<Rightarrow> 'f) option"
  qid :: "(nat \<Rightarrow> 64 word) option"
  index :: "nat \<Rightarrow> 32 word"

record 'f MetaInfo =
  labels_m :: "'f list"
  weights_m :: "'f list"
  qids_m :: "64 word list"
  group_ptr_m :: "32 word list"
  num_row_m :: "64 word"
  num_col_m :: "64 word"
  num_nonzero_m :: "64 word"

text \<open>
  Modelled from the spec: the default-constructed \<^verbatim>\<open>MetaInfo info;\<close> (its class is
  declared outside the file); the spec's empty input gives "zero counts".
\<close>

definition MetaInfo_new :: "'f MetaInfo" where
  "MetaInfo_new =
     \<lparr>labels_m = [], weights_m = [], qids_m = [], group_ptr_m = [],
      num_row_m = 0, num_col_m = 0, num_nonzero_m = 0\<rparr>"

text \<open>
  The operations of \<^verbatim>\<open>SparsePage\<close> and \<^verbatim>\<open>SparsePageWriter::Alloc\<close> that the
  builders call. They are declared outside the file, so the builders take them as a
  parameter; no property of them is assumed.
\<close>

record ('d, 'f) page_ops =
  Alloc :: "'d SparsePage"
  Clear :: "'d SparsePage \<Rightarrow> 'd SparsePage"
  Push_block :: "'d SparsePage \<Rightarrow> 'f RowBlock \<Rightarrow> 'd SparsePage"
  Push_page :: "'d SparsePage \<Rightarrow> 'd SparsePage \<Rightarrow> 'd SparsePage"
  MemCostBytes :: "'d SparsePage \<Rightarrow> 64 word"
  data_Size :: "'d SparsePage \<Rightarrow> 64 word"
  GetTranspose :: "'d SparsePage \<Rightarrow> 64 word \<Rightarrow> 'd SparsePage"
  SortRows :: "'d SparsePage \<Rightarrow> 'd SparsePage"

text \<open>
  What a builder leaves behind: the metadata file \<open>name_info\<close> holding the magic tag and
  \<open>saved_info\<close>, and the pages handed to \<^verbatim>\<open>SparsePageWriter::PushWrite\<close>, in order,
  for the files \<open>name_shards\<close>.
\<close>

record ('d, 'f) cache_files =
  name_info :: string
  name_shards :: "string list"
  pushed :: "'d SparsePage list"
  saved_info :: "'f MetaInfo"

text \<open>The last three lines of both loops' epilogue: \<^verbatim>\<open>if (page->data.Size() != 0) writer.PushWrite(std::move(page));\<close>\<close>

definition flush_trailing ::
  "('d, 'f) page_ops \<Rightarrow> 'd SparsePage \<Rightarrow> 'd SparsePage list \<Rightarrow> 'd SparsePage list" where
  "flush_trailing api page writer =
     (if data_Size api page \<noteq> 0 then writer @ [page] else writer)"

subsection \<open>CreatePageFromDMatrix\<close>

record ('d, 'f) DMatrix =
  Info :: "'f MetaInfo"
  GetRowBatches :: "'d SparsePage list"

text \<open>The chain of comparisons on \<^verbatim>\<open>page_type\<close> (lines 244--254).\<close>

definition push_batch ::
  "('d, 'f) page_ops \<Rightarrow> string \<Rightarrow> 64 word \<Rightarrow> 'd SparsePage \<Rightarrow> 'd SparsePage \<Rightarrow>
     error + 'd SparsePage" where
  "push_batch api page_type num_col page batch =
     (if page_type = ''.row.page'' then Inr (Push_page api page batch)
      else if page_type = ''.col.page''
      then Inr (Push_page api page (GetTranspose api batch num_col))
      else if page_type = ''.sorted.col.page''
      then Inr (Push_page api page (SortRows api (GetTranspose api batch num_col)))
      else Inl UnknownPageType)"

text \<open>The loop over \<^verbatim>\<open>src->GetRowBatches()\<close>, on the pair of the current page and the writer.\<close>

fun page_loop ::
  "('d, 'f) page_ops \<Rightarrow> 64 word \<Rightarrow> string \<Rightarrow> 64 word \<Rightarrow>
     'd SparsePage \<times> 'd SparsePage list \<Rightarrow> 'd SparsePage list \<Rightarrow>
     error + 'd SparsePage \<times> 'd SparsePage list" where
  "page_loop api kPageSize page_type num_col st [] = Inr st"
| "page_loop api kPageSize page_type num_col (page, writer) (batch # batches) =
     (case push_batch api page_type num_col page batch of
        Inl e \<Rightarrow> Inl e
      | Inr page' \<Rightarrow>
          if kPageSize \<le> MemCostBytes api page'
          then page_loop api kPageSize page_type num_col
                 (Clear api (Alloc api), writer @ [page']) batches
          else page_loop api kPageSize page_type num_col (page', writer) batches)"

definition CreatePageFromDMatrix ::
  "(string \<Rightarrow> char \<Rightarrow> string list) \<Rightarrow> bool \<Rightarrow> ('d, 'f) page_ops \<Rightarrow> 64 word \<Rightarrow>
     ('d, 'f) DMatrix \<Rightarrow> string \<Rightarrow> string \<Rightarrow> error + ('d, 'f) cache_files" where
  "CreatePageFromDMatrix split win32 api kPageSize src cache_info page_type =
     (case checked_shards split win32 cache_info of
        Inl e \<Rightarrow> Inl e
      | Inr cache_shards \<Rightarrow>
          (case page_loop api kPageSize page_type (num_col_m (Info src))
                  (Clear api (Alloc api), []) (GetRowBatches src) of
             Inl e \<Rightarrow> Inl e
           | Inr (page, writer) \<Rightarrow>
               Inr \<lparr>name_info = cache_shards ! 0,
                    name_shards = map (\<lambda>prefix. prefix @ page_type) cache_shards,
                    pushed = flush_trailing api page writer,
                    saved_info = Info src\<rparr>))"


text \<open>\<^verbatim>\<open>CreateRowPage(DMatrix*, cache_info)\<close> and \<^verbatim>\<open>CreateColumnPage\<close>.\<close>

definition CreateRowPage_DMatrix ::
  "(string \<Rightarrow> char \<Rightarrow> string list) \<Rightarrow> bool \<Rightarrow> ('d, 'f) page_ops \<Rightarrow> 64 word \<Rightarrow>
     ('d, 'f) DMatrix \<Rightarrow> string \<Rightarrow> error + ('d, 'f) cache_files" where
  "CreateRowPage_DMatrix split win32 api kPageSize src cache_info =
     CreatePageFromDMatrix split win32 api kPageSize src cache_info ''.row.page''"

definition CreateColumnPage ::
  "(string \<Rightarrow> char \<Rightarrow> string list) \<Rightarrow> bool \<Rightarrow> ('d, 'f) page_ops \<Rightarrow> 64 word \<Rightarrow>
     ('d, 'f) DMatrix \<Rightarrow> string \<Rightarrow> bool \<Rightarrow> error + ('d, 'f) cache_files" where
  "CreateColumnPage split win32 api kPageSize src cache_info is_sorted =
     CreatePageFromDMatrix split win32 api kPageSize src cache_info
       (if is_sorted then ''.sorted.col.page'' else ''.col.page'')"

subsection \<open>CreateRowPage from a streaming parser\<close>

definition default_max :: "64 word" where
  "default_max = 18446744073709551615"

record ('d, 'f) row_builder =
  info :: "'f MetaInfo"
  page :: "'d SparsePage"
  writer :: "'d SparsePage list"
  last_group_id :: "64 word"
  group_size :: "32 word"

definition row_builder_new :: "('d, 'f) page_ops \<Rightarrow> ('d, 'f) row_builder" where
  "row_builder_new api =
     \<lparr>info = MetaInfo_new, page = Clear api (Alloc api), writer = [],
      last_group_id = default_max, group_size = 0\<rparr>"

text \<open>The body of the loop over the rows of a block that carries query ids (lines 170--175).\<close>

definition group_row :: "('d, 'f) row_builder \<Rightarrow> 64 word \<Rightarrow> ('d, 'f) row_builder" where
  "group_row st cur_group_id =
     (let st1 = (if last_group_id st = default_max \<or> last_group_id st \<noteq> cur_group_id
                 then st\<lparr>info := (info st)\<lparr>group_ptr_m :=
                                     group_ptr_m (info st) @ [group_size st]\<rparr>\<rparr>
                 else st)
      in st1\<lparr>last_group_id := cur_group_id, group_size := group_size st1 + 1\<rparr>)"

text \<open>
  The body of \<^verbatim>\<open>while (src->Next())\<close> for one block (lines 157--199); the increment
  \<^verbatim>\<open>index + 1\<close> is computed on 32 bits and widened afterwards.
\<close>

definition add_batch ::
  "('d, 'f) page_ops \<Rightarrow> 64 word \<Rightarrow> ('d, 'f) row_builder \<Rightarrow> 'f RowBlock \<Rightarrow>
     ('d, 'f) row_builder" where
  "add_batch api kPageSize st batch =
     (let rows = [0..<size_rb batch];
          st1 = (case label batch of
                   None \<Rightarrow> st
                 | Some l \<Rightarrow> st\<lparr>info := (info st)\<lparr>labels_m := labels_m (info st) @ map l rows\<rparr>\<rparr>);
          st2 = (case weight batch of
                   None \<Rightarrow> st1
                 | Some w \<Rightarrow> st1\<lparr>info := (info st1)\<lparr>weights_m := weights_m (info st1) @ map w rows\<rparr>\<rparr>);
          st3 = (case qid batch of
                   None \<Rightarrow> st2
                 | Some q \<Rightarrow>
                     foldl group_row
                       (st2\<lparr>info := (info st2)\<lparr>qids_m := qids_m (info st2) @ map q rows\<rparr>\<rparr>)
                       (map q rows));
          st4 = st3\<lparr>info := (info st3)
                  \<lparr>num_row_m := num_row_m (info st3) + of_nat (size_rb batch),
                   num_nonzero_m := num_nonzero_m (info st3)
                                      + (offset batch (size_rb batch) - offset batch 0)\<rparr>\<rparr>;
          st5 = st4\<lparr>info := (info st4)
                  \<lparr>num_col_m :=
                     foldl (\<lambda>num_col i. max num_col (ucast (index batch i + 1)))
                       (num_col_m (info st4))
                       [unat (offset batch 0)..<unat (offset batch (size_rb batch))]\<rparr>\<rparr>;
          st6 = st5\<lparr>page := Push_block api (page st5) batch\<rparr>
      in if kPageSize \<le> MemCostBytes api (page st6)
         then st6\<lparr>writer := writer st6 @ [page st6], page := Clear api (Alloc api)\<rparr>
         else st6)"

text \<open>
  Lines 201--205. \<^verbatim>\<open>group_ptr_.back()\<close> on an empty vector is undefined behaviour.
\<close>

definition close_group :: "('d, 'f) row_builder \<Rightarrow> error + ('d, 'f) row_builder" where
  "close_group st =
     (if last_group_id st \<noteq> default_max then
        (if group_ptr_m (info st) = [] then Inl OutOfBounds
         else if group_size st > last (group_ptr_m (info st))
         then Inr (st\<lparr>info := (info st)\<lparr>group_ptr_m :=
                                   group_ptr_m (info st) @ [group_size st]\<rparr>\<rparr>)
         else Inr st)
      else Inr st)"

text \<open>
  \<^verbatim>\<open>CreateRowPage(dmlc::Parser<uint32_t>* src, cache_info)\<close>; the parser is the list
  of the blocks it yields, and \<open>row_loop\<close> is the \<^verbatim>\<open>while\<close> loop over them.
\<close>

definition row_loop ::
  "('d, 'f) page_ops \<Rightarrow> 64 word \<Rightarrow> 'f RowBlock list \<Rightarrow> ('d, 'f) row_builder" where
  "row_loop api kPageSize src = foldl (add_batch api kPageSize) (row_builder_new api) src"

definition CreateRowPage ::
  "(string \<Rightarrow> char \<Rightarrow> string list) \<Rightarrow> bool \<Rightarrow> ('d, 'f) page_ops \<Rightarrow> 64 word \<Rightarrow>
     'f RowBlock list \<Rightarrow> string \<Rightarrow> error + ('d, 'f) cache_files" where
  "CreateRowPage split win32 api kPageSize src cache_info =
     (case checked_shards split win32 cache_info of
        Inl e \<Rightarrow> Inl e
      | Inr cache_shards \<Rightarrow>
          (case close_group (row_loop api kPageSize src) of
             Inl e \<Rightarrow> Inl e
           | Inr st \<Rightarrow>
               if qids_m (info st) = [] \<or> of_nat (length (qids_m (info st))) = num_row_m (info st)
               then Inr \<lparr>name_info = cache_shards ! 0,
                         name_shards = map (\<lambda>prefix. prefix @ ''.row.page'') cache_shards,
                         pushed = flush_trailing api (page st) (writer st),
                         saved_info = info st\<rparr>
               else Inl GroupInvariant))"

subsection \<open>The input seen as streams, and a concrete page interface\<close>

text \<open>
  The query ids and the column indices that \<open>row_loop\<close> reads, in the order in which it
  reads them: blocks without a \<^verbatim>\<open>qid\<close> array contribute no query id.
\<close>

definition batch_qids :: "'f RowBlock \<Rightarrow> 64 word list" where
  "batch_qids batch = (case qid batch of None \<Rightarrow> [] | Some q \<Rightarrow> map q [0..<size_rb batch])"

definition qid_stream :: "'f RowBlock list \<Rightarrow> 64 word list" where
  "qid_stream src = concat (map batch_qids src)"

definition batch_indices :: "'f RowBlock \<Rightarrow> 32 word list" where
  "batch_indices batch =
     map (index batch) [unat (offset batch 0)..<unat (offset batch (size_rb batch))]"

definition index_stream :: "'f RowBlock list \<Rightarrow> 32 word list" where
  "index_stream src = concat (map batch_indices src)"

text \<open>
  The group boundaries in the words of the spec: position \<open>i\<close> is a boundary when the
  query id there differs from the one before it, the first observation included. The
  previous id is an \<open>option\<close> here, where the code keeps a sentinel.
\<close>

fun spec_change_points :: "nat \<Rightarrow> 64 word option \<Rightarrow> 64 word list \<Rightarrow> nat list" where
  "spec_change_points i prev [] = []"
| "spec_change_points i prev (q # qs) =
     (if prev \<noteq> Some q then [i] else []) @ spec_change_points (Suc i) (Some q) qs"

text \<open>The three variables of the grouping code, and one row's effect on them.\<close>

definition grp_of :: "('d, 'f) row_builder \<Rightarrow> 64 word \<times> 32 word \<times> 32 word list" where
  "grp_of st = (last_group_id st, group_size st, group_ptr_m (info st))"

fun grp_step :: "64 word \<times> 32 word \<times> 32 word list \<Rightarrow> 64 word \<Rightarrow> 64 word \<times> 32 word \<times> 32 word list" where
  "grp_step (l, g, ptr) q = (q, g + 1, if l = default_max \<or> l \<noteq> q then ptr @ [g] else ptr)"

text \<open>
  Modelled from the spec: an instance of the page interface of section 3 (push, clear,
  size, memory cost, transpose, row sort), for evaluating the builders on concrete
  inputs; labels and weights, which the examples do not use, are numbers of type \<open>nat\<close>. A page holds the column indices of its rows; every offset and every entry
  costs 8 bytes. \<open>block_of\<close> builds the block with the given query ids and rows.
\<close>

definition example_ops :: "(32 word list list, nat) page_ops" where
  "example_ops =
     \<lparr>Alloc = \<lparr>base_rowid = 0, payload = []\<rparr>,
      Clear = (\<lambda>p. \<lparr>base_rowid = 0, payload = []\<rparr>),
      Push_block = (\<lambda>p b. p\<lparr>payload := payload p @
                      map (\<lambda>r. map (index b) [unat (offset b r)..<unat (offset b (Suc r))])
                          [0..<size_rb b]\<rparr>),
      Push_page = (\<lambda>p q. p\<lparr>payload := payload p @ payload q\<rparr>),
      MemCostBytes = (\<lambda>p. 8 * (of_nat (length (payload p)) + 1)
                            + 8 * of_nat (length (concat (payload p)))),
      data_Size = (\<lambda>p. of_nat (length (concat (payload p)))),
      GetTranspose = (\<lambda>p n. p\<lparr>payload :=
                        map (\<lambda>c. map of_nat (filter (\<lambda>r. of_nat c \<in> set (payload p ! r))
                                               [0..<length (payload p)]))
                            [0..<unat n]\<rparr>),
      SortRows = (\<lambda>p. p\<lparr>payload := map sort (payload p)\<rparr>)\<rparr>"

definition block_of :: "64 word list option \<Rightarrow> 32 word list list \<Rightarrow> nat RowBlock" where
  "block_of qids rows =
     \<lparr>size_rb = length rows,
      offset = (\<lambda>r. of_nat (length (concat (take r rows)))),
      label = None, weight = None,
      qid = map_option (\<lambda>qs i. qs ! i) qids,
      index = (\<lambda>i. concat rows ! i)\<rparr>"

section \<open>Properties of the streaming builder\<close>

subsection \<open>What the loop accumulates\<close>

lemma group_row_grp: "grp_of (group_row st q) = grp_step (grp_of st) q"
  by (simp add: grp_of_def group_row_def Let_def)

lemma foldl_group_row_grp: "grp_of (foldl group_row st qs) = foldl grp_step (grp_of st) qs"
  by (induction qs arbitrary: st) (simp_all add: group_row_grp)

lemma foldl_group_row_fields:
  "last_group_id (foldl group_row st qs) =
     fst (foldl grp_step (last_group_id st, group_size st, group_ptr_m (info st)) qs)"
  "group_size (foldl group_row st qs) =
     fst (snd (foldl grp_step (last_group_id st, group_size st, group_ptr_m (info st)) qs))"
  "group_ptr_m (info (foldl group_row st qs)) =
     snd (snd (foldl grp_step (last_group_id st, group_size st, group_ptr_m (info st)) qs))"
proof -
  from foldl_group_row_grp[of st qs]
  have eq: "foldl grp_step (last_group_id st, group_size st, group_ptr_m (info st)) qs =
      (last_group_id (foldl group_row st qs), group_size (foldl group_row st qs),
       group_ptr_m (info (foldl group_row st qs)))"
    by (simp add: grp_of_def)
  show "last_group_id (foldl group_row st qs) =
     fst (foldl grp_step (last_group_id st, group_size st, group_ptr_m (info st)) qs)"
    "group_size (foldl group_row st qs) =
     fst (snd (foldl grp_step (last_group_id st, group_size st, group_ptr_m (info st)) qs))"
    "group_ptr_m (info (foldl group_row st qs)) =
     snd (snd (foldl grp_step (last_group_id st, group_size st, group_ptr_m (info st)) qs))"
    by (simp_all add: eq)
qed

lemma group_row_other:
  "labels_m (info (group_row st q)) = labels_m (info st)"
  "weights_m (info (group_row st q)) = weights_m (info st)"
  "qids_m (info (group_row st q)) = qids_m (info st)"
  "num_row_m (info (group_row st q)) = num_row_m (info st)"
  "num_col_m (info (group_row st q)) = num_col_m (info st)"
  "num_nonzero_m (info (group_row st q)) = num_nonzero_m (info st)"
  "page (group_row st q) = page st"
  "writer (group_row st q) = writer st"
  by (simp_all add: group_row_def Let_def)

lemma foldl_group_row_other:
  "labels_m (info (foldl group_row st qs)) = labels_m (info st)"
  "weights_m (info (foldl group_row st qs)) = weights_m (info st)"
  "qids_m (info (foldl group_row st qs)) = qids_m (info st)"
  "num_row_m (info (foldl group_row st qs)) = num_row_m (info st)"
  "num_col_m (info (foldl group_row st qs)) = num_col_m (info st)"
  "num_nonzero_m (info (foldl group_row st qs)) = num_nonzero_m (info st)"
  "page (foldl group_row st qs) = page st"
  "writer (foldl group_row st qs) = writer st"
  by (induction qs arbitrary: st) (simp_all add: group_row_other)

lemma add_batch_grp:
  "grp_of (add_batch api k st b) = foldl grp_step (grp_of st) (batch_qids b)"
  by (simp add: add_batch_def Let_def batch_qids_def grp_of_def foldl_group_row_fields
           split: option.splits)

lemma add_batch_qids:
  "qids_m (info (add_batch api k st b)) = qids_m (info st) @ batch_qids b"
  by (simp add: add_batch_def Let_def batch_qids_def foldl_group_row_other
           split: option.splits)

lemma add_batch_num_row:
  "num_row_m (info (add_batch api k st b)) = num_row_m (info st) + of_nat (size_rb b)"
  by (simp add: add_batch_def Let_def foldl_group_row_other split: option.splits)

lemma add_batch_num_col:
  "num_col_m (info (add_batch api k st b)) =
     foldl (\<lambda>num_col i. max num_col (ucast (i + 1))) (num_col_m (info st)) (batch_indices b)"
proof -
  have rhs: "foldl (\<lambda>num_col i. max num_col (ucast (i + 1))) c (batch_indices b) =
      foldl (\<lambda>num_col i. max num_col (ucast (index b i + 1))) c
        [unat (offset b 0)..<unat (offset b (size_rb b))]" for c :: "64 word"
    by (simp add: batch_indices_def foldl_map)
  show ?thesis
    unfolding rhs
    by (simp add: add_batch_def Let_def foldl_group_row_other split: option.splits)
qed

lemma foldl_add_batch_grp:
  "grp_of (foldl (add_batch api k) st src) = foldl grp_step (grp_of st) (qid_stream src)"
  by (induction src arbitrary: st) (simp_all add: qid_stream_def add_batch_grp)

lemma foldl_add_batch_qids:
  "qids_m (info (foldl (add_batch api k) st src)) = qids_m (info st) @ qid_stream src"
  by (induction src arbitrary: st) (simp_all add: qid_stream_def add_batch_qids)

lemma foldl_add_batch_num_row:
  "num_row_m (info (foldl (add_batch api k) st src)) =
     num_row_m (info st) + of_nat (sum_list (map size_rb src))"
  by (induction src arbitrary: st) (simp_all add: add_batch_num_row add.assoc)

lemma foldl_add_batch_num_col:
  "num_col_m (info (foldl (add_batch api k) st src)) =
     foldl (\<lambda>num_col i. max num_col (ucast (i + 1))) (num_col_m (info st)) (index_stream src)"
  by (induction src arbitrary: st) (simp_all add: index_stream_def add_batch_num_col)

lemma row_loop_grp:
  "grp_of (row_loop api k src) = foldl grp_step (default_max, 0, []) (qid_stream src)"
  by (simp add: row_loop_def foldl_add_batch_grp)
     (simp add: grp_of_def row_builder_new_def MetaInfo_new_def)

lemma row_loop_qids: "qids_m (info (row_loop api k src)) = qid_stream src"
  by (simp add: row_loop_def foldl_add_batch_qids row_builder_new_def MetaInfo_new_def)

lemma row_loop_num_row:
  "num_row_m (info (row_loop api k src)) = of_nat (sum_list (map size_rb src))"
  by (simp add: row_loop_def foldl_add_batch_num_row row_builder_new_def MetaInfo_new_def)

lemma row_loop_num_col:
  "num_col_m (info (row_loop api k src)) =
     foldl (\<lambda>num_col i. max num_col (ucast (i + 1))) 0 (index_stream src)"
  by (simp add: row_loop_def foldl_add_batch_num_col row_builder_new_def MetaInfo_new_def)

subsection \<open>The fold of one row's effect\<close>

lemma grp_fold_last: "fst (foldl grp_step (l, g, ptr) qs) = last (l # qs)"
  by (induction qs arbitrary: l g ptr) simp_all

lemma grp_fold_size: "fst (snd (foldl grp_step (l, g, ptr) qs)) = g + of_nat (length qs)"
  by (induction qs arbitrary: l g ptr) (simp_all add: add.assoc)

lemma grp_fold_extends: "\<exists>ext. snd (snd (foldl grp_step (l, g, ptr) qs)) = ptr @ ext"
proof (induction qs arbitrary: l g ptr)
  case Nil
  then show ?case by simp
next
  case (Cons q qs)
  from Cons[of q "g + 1" "if l = default_max \<or> l \<noteq> q then ptr @ [g] else ptr"]
  show ?case by (auto split: if_splits)
qed

lemma grp_fold_first:
  assumes "qs \<noteq> []"
  shows "\<exists>ext. snd (snd (foldl grp_step (default_max, g, ptr) qs)) = ptr @ g # ext"
proof -
  from assms obtain q qs' where qs: "qs = q # qs'" by (cases qs) auto
  from grp_fold_extends[of q "g + 1" "ptr @ [g]" qs'] show ?thesis
    by (auto simp: qs)
qed

lemma grp_fold_change_points:
  assumes "default_max \<notin> set qs"
    and "(prev = None \<and> l = default_max) \<or> (prev = Some l \<and> l \<noteq> default_max)"
  shows "snd (snd (foldl grp_step (l, of_nat i, ptr) qs))
           = ptr @ map of_nat (spec_change_points i prev qs)"
  using assms
proof (induction qs arbitrary: l i ptr prev)
  case Nil
  then show ?case by simp
next
  case (Cons q qs)
  from Cons.prems have q: "q \<noteq> default_max" and rest: "default_max \<notin> set qs" by auto
  have step: "snd (snd (foldl grp_step (q, of_nat i + 1, ptr') qs))
           = ptr' @ map of_nat (spec_change_points (Suc i) (Some q) qs)" for ptr'
    using Cons.IH[OF rest, of "Some q" q "Suc i" ptr'] q by (simp add: add.commute)
  from Cons.prems(2) q show ?case
    by (auto simp: step)
qed

lemma change_points_bounds:
  "c \<in> set (spec_change_points i prev qs) \<Longrightarrow> i \<le> c \<and> c < i + length qs"
  by (induction qs arbitrary: i prev) (fastforce split: if_splits)+

lemma change_points_first: "spec_change_points i None (q # qs) = i # spec_change_points (Suc i) (Some q) qs"
  by simp

subsection \<open>The group boundaries\<close>

lemma row_loop_last_group_id:
  "last_group_id (row_loop api k src) = last (default_max # qid_stream src)"
  using arg_cong[OF row_loop_grp[of api k src], of fst]
  by (simp add: grp_of_def grp_fold_last)

lemma row_loop_group_size:
  "group_size (row_loop api k src) = of_nat (length (qid_stream src))"
  using arg_cong[OF row_loop_grp[of api k src], of "\<lambda>x. fst (snd x)"]
  by (simp add: grp_of_def grp_fold_size)

lemma row_loop_group_ptr:
  "group_ptr_m (info (row_loop api k src)) =
     snd (snd (foldl grp_step (default_max, 0, []) (qid_stream src)))"
  using arg_cong[OF row_loop_grp[of api k src], of "\<lambda>x. snd (snd x)"]
  by (simp add: grp_of_def)

lemma row_loop_group_ptr_first:
  assumes "qid_stream src \<noteq> []"
  shows "\<exists>ext. group_ptr_m (info (row_loop api k src)) = 0 # ext"
  using grp_fold_first[OF assms, of 0 "[]"] by (simp add: row_loop_group_ptr)

lemma row_loop_sentinel:
  assumes "last_group_id (row_loop api k src) \<noteq> default_max"
  shows "qid_stream src \<noteq> []"
  using assms by (auto simp: row_loop_last_group_id)

lemma grp_fold_change_points_subset:
  assumes "prev = None \<longrightarrow> l = default_max" and "\<forall>p. prev = Some p \<longrightarrow> l = p"
    and "c \<in> set (spec_change_points i prev qs)"
  shows "of_nat c \<in> set (snd (snd (foldl grp_step (l, of_nat i, ptr) qs)))"
  using assms
proof (induction qs arbitrary: l i ptr prev)
  case Nil
  then show ?case by simp
next
  case (Cons q qs)
  let ?ptr' = "if l = default_max \<or> l \<noteq> q then ptr @ [of_nat i] else ptr"
  have fold: "foldl grp_step (l, of_nat i, ptr) (q # qs) =
      foldl grp_step (q, of_nat (Suc i), ?ptr') qs"
    by (simp add: add.commute)
  from Cons.prems(3) consider (here) "prev \<noteq> Some q" "c = i"
    | (later) "c \<in> set (spec_change_points (Suc i) (Some q) qs)"
    by (auto split: if_splits)
  then show ?case
  proof cases
    case here
    with Cons.prems(1,2) have "?ptr' = ptr @ [of_nat i]" by (cases prev) auto
    moreover from grp_fold_extends[of q "of_nat (Suc i)" ?ptr' qs] obtain ext where
      "snd (snd (foldl grp_step (q, of_nat (Suc i), ?ptr') qs)) = ?ptr' @ ext" by blast
    ultimately show ?thesis using here(2) unfolding fold by simp
  next
    case later
    have "of_nat c \<in> set (snd (snd (foldl grp_step (q, of_nat (Suc i), ?ptr') qs)))"
      by (rule Cons.IH[OF _ _ later]) simp_all
    then show ?thesis unfolding fold .
  qed
qed

lemma change_points_None_nonempty:
  "qs \<noteq> [] \<Longrightarrow> spec_change_points i None qs \<noteq> []"
  by (cases qs) simp_all

lemma close_group_row_loop:
  "close_group (row_loop api k src) =
     Inr (if last_group_id (row_loop api k src) \<noteq> default_max
             \<and> last (group_ptr_m (info (row_loop api k src))) < group_size (row_loop api k src)
          then (row_loop api k src)\<lparr>info := (info (row_loop api k src))
                 \<lparr>group_ptr_m := group_ptr_m (info (row_loop api k src))
                                   @ [group_size (row_loop api k src)]\<rparr>\<rparr>
          else row_loop api k src)"
proof (cases "last_group_id (row_loop api k src) = default_max")
  case True
  then show ?thesis by (simp add: close_group_def)
next
  case False
  from row_loop_group_ptr_first[OF row_loop_sentinel[OF False], of api k]
  have "group_ptr_m (info (row_loop api k src)) \<noteq> []" by auto
  with False show ?thesis by (simp add: close_group_def)
qed

lemma word32_of_nat_less:
  assumes "a < b" and "b < 2 ^ 32"
  shows "(of_nat a :: 32 word) < of_nat b"
  using assms by (simp add: word_less_nat_alt unat_of_nat)

lemma closed_group_ptr_change_points:
  assumes ns: "default_max \<notin> set (qid_stream src)" and len: "length (qid_stream src) < 2 ^ 32"
  shows "map_sum id (group_ptr_m \<circ> info) (close_group (row_loop api k src)) =
           Inr (map of_nat (spec_change_points 0 None (qid_stream src))
                @ (if qid_stream src = [] then [] else [of_nat (length (qid_stream src))]))"
proof -
  let ?qs = "qid_stream src"
  let ?st = "row_loop api k src"
  have ptr: "group_ptr_m (info ?st) = map of_nat (spec_change_points 0 None ?qs)"
    using grp_fold_change_points[OF ns, of None default_max 0 "[]"]
    by (simp add: row_loop_group_ptr)
  show ?thesis
  proof (cases "?qs = []")
    case True
    then show ?thesis
      by (simp add: close_group_row_loop row_loop_last_group_id ptr)
  next
    case False
    then have l: "last_group_id ?st \<noteq> default_max"
      using ns by (auto simp: row_loop_last_group_id dest: last_in_set)
    from False have cne: "spec_change_points 0 None ?qs \<noteq> []"
      by (rule change_points_None_nonempty)
    then have "last (spec_change_points 0 None ?qs) \<in> set (spec_change_points 0 None ?qs)"
      by (rule last_in_set)
    from change_points_bounds[OF this] have "last (spec_change_points 0 None ?qs) < length ?qs"
      by simp
    from word32_of_nat_less[OF this len]
    have "last (group_ptr_m (info ?st)) < group_size ?st"
      using cne by (simp add: ptr row_loop_group_size last_map)
    with l False show ?thesis
      by (simp add: close_group_row_loop ptr row_loop_group_size)
  qed
qed

text \<open>
  What the grouping code computes. Let \<open>qs\<close> be the query ids the loop reads. Every
  position of \<open>qs\<close> whose id differs from the one before it, the first position
  included, puts the number of ids read before it (the counter \<^verbatim>\<open>group_size\<close> before
  its increment) into \<^verbatim>\<open>group_ptr\<close>, so that a \<^verbatim>\<open>group_ptr\<close> built from at least
  one id begins with 0. The code after the loop appends \<^verbatim>\<open>group_size\<close> when
  \<^verbatim>\<open>last_group_id\<close> differs from \<open>2\<^sup>6\<^sup>4 - 1\<close> and \<^verbatim>\<open>group_size\<close> exceeds the last
  boundary. On inputs in which no id equals \<open>2\<^sup>6\<^sup>4 - 1\<close> and fewer than \<open>2\<^sup>3\<^sup>2\<close> ids
  are read, the final \<^verbatim>\<open>group_ptr\<close> is the list of change points followed by the
  number of ids.
\<close>

lemma group_ptr_boundaries:
  "(\<forall>c \<in> set (spec_change_points 0 None (qid_stream src)).
       of_nat c \<in> set (group_ptr_m (info (row_loop api k src))))
   \<and> (qid_stream src \<noteq> [] \<longrightarrow> hd (group_ptr_m (info (row_loop api k src))) = 0)
   \<and> group_size (row_loop api k src) = of_nat (length (qid_stream src))
   \<and> last_group_id (row_loop api k src) = last (default_max # qid_stream src)
   \<and> map_sum id (group_ptr_m \<circ> info) (close_group (row_loop api k src)) =
        Inr (if last_group_id (row_loop api k src) \<noteq> default_max
                \<and> last (group_ptr_m (info (row_loop api k src))) < group_size (row_loop api k src)
             then group_ptr_m (info (row_loop api k src)) @ [group_size (row_loop api k src)]
             else group_ptr_m (info (row_loop api k src)))
   \<and> (default_max \<notin> set (qid_stream src) \<and> length (qid_stream src) < 2 ^ 32 \<longrightarrow>
        map_sum id (group_ptr_m \<circ> info) (close_group (row_loop api k src)) =
          Inr (map of_nat (spec_change_points 0 None (qid_stream src))
               @ (if qid_stream src = [] then [] else [of_nat (length (qid_stream src))])))"
proof (intro conjI impI ballI)
  fix c
  assume "c \<in> set (spec_change_points 0 None (qid_stream src))"
  from grp_fold_change_points_subset[OF _ _ this, of default_max "[]"]
  show "of_nat c \<in> set (group_ptr_m (info (row_loop api k src)))"
    by (simp add: row_loop_group_ptr)
next
  assume "qid_stream src \<noteq> []"
  from row_loop_group_ptr_first[OF this, of api k]
  show "hd (group_ptr_m (info (row_loop api k src))) = 0" by auto
next
  show "group_size (row_loop api k src) = of_nat (length (qid_stream src))"
    by (rule row_loop_group_size)
  show "last_group_id (row_loop api k src) = last (default_max # qid_stream src)"
    by (rule row_loop_last_group_id)
  show "map_sum id (group_ptr_m \<circ> info) (close_group (row_loop api k src)) =
        Inr (if last_group_id (row_loop api k src) \<noteq> default_max
                \<and> last (group_ptr_m (info (row_loop api k src))) < group_size (row_loop api k src)
             then group_ptr_m (info (row_loop api k src)) @ [group_size (row_loop api k src)]
             else group_ptr_m (info (row_loop api k src)))"
    by (simp add: close_group_row_loop)
next
  assume "default_max \<notin> set (qid_stream src) \<and> length (qid_stream src) < 2 ^ 32"
  then show "map_sum id (group_ptr_m \<circ> info) (close_group (row_loop api k src)) =
          Inr (map of_nat (spec_change_points 0 None (qid_stream src))
               @ (if qid_stream src = [] then [] else [of_nat (length (qid_stream src))]))"
    using closed_group_ptr_change_points[of src api k] by blast
qed

lemma group_ptr_boundaries_example:
  "qid_stream [block_of (Some [1, 1, 2, 2, 2, 3]) [[0], [1], [2], [0, 3], [], [4]]]
     = [1, 1, 2, 2, 2, 3]
   \<and> default_max \<notin> set (qid_stream [block_of (Some [1, 1, 2, 2, 2, 3]) [[0], [1], [2], [0, 3], [], [4]]])
   \<and> length (qid_stream [block_of (Some [1, 1, 2, 2, 2, 3]) [[0], [1], [2], [0, 3], [], [4]]])
       < 2 ^ 32
   \<and> map_sum id (group_ptr_m \<circ> info)
        (close_group (row_loop example_ops 1000
           [block_of (Some [1, 1, 2, 2, 2, 3]) [[0], [1], [2], [0, 3], [], [4]]]))
       = Inr [0, 2, 5, 6]
   \<and> map_sum id (group_ptr_m \<circ> saved_info)
        (CreateRowPage Split False example_ops 1000
           [block_of (Some [1, 1, 2, 2, 2, 3]) [[0], [1], [2], [0, 3], [], [4]]] ''a:b'')
       = Inr [0, 2, 5, 6]"
proof -
  let ?src = "[block_of (Some [1, 1, 2, 2, 2, 3]) [[0], [1], [2], [0, 3], [], [4]]]"
  have q: "qid_stream ?src = [1, 1, 2, 2, 2, 3]"
    by code_simp
  have h: "default_max \<notin> set (qid_stream ?src) \<and> length (qid_stream ?src) < 2 ^ 32"
    unfolding q by (simp add: default_max_def)
  have cp: "map of_nat (spec_change_points 0 None [1, 1, 2, 2, 2, 3]) = [0, 2, 5 :: 32 word]"
    by code_simp
  have full: "map_sum id (group_ptr_m \<circ> saved_info)
        (CreateRowPage Split False example_ops 1000 ?src ''a:b'') = Inr [0, 2, 5, 6]"
    by code_simp
  from group_ptr_boundaries[of ?src example_ops 1000] h
  have "map_sum id (group_ptr_m \<circ> info) (close_group (row_loop example_ops 1000 ?src)) =
          Inr (map of_nat (spec_change_points 0 None (qid_stream ?src))
               @ (if qid_stream ?src = [] then [] else [of_nat (length (qid_stream ?src))]))"
    by blast
  then have "map_sum id (group_ptr_m \<circ> info) (close_group (row_loop example_ops 1000 ?src))
       = Inr [0, 2, 5, 6]"
    unfolding q cp by simp
  with q h full show ?thesis by blast
qed

text \<open>
  C3. The claim closes the last group whenever a query id was seen. The code takes
  \<^verbatim>\<open>last_group_id != default_max\<close> for "a query id was seen", and \<open>2\<^sup>6\<^sup>4 - 1\<close> is
  itself a query id that a block can carry. For the single id \<open>2\<^sup>6\<^sup>4 - 1\<close> the loop opens
  a group at 0 and \<^verbatim>\<open>group_size = 1\<close> exceeds that boundary, yet nothing is appended:
  the saved \<^verbatim>\<open>group_ptr\<close> is \<open>[0]\<close> where the claim gives \<open>[0, 1]\<close>. For the ids
  \<open>1, 2\<^sup>6\<^sup>4 - 1\<close> it is \<open>[0, 1]\<close> where the claim gives \<open>[0, 1, 2]\<close>. Two rows that
  both carry \<open>2\<^sup>6\<^sup>4 - 1\<close>, whose ids do not differ, are put into two groups, and the
  saved \<^verbatim>\<open>group_ptr\<close> is \<open>[0, 1]\<close> where the claim gives \<open>[0, 2]\<close>.
\<close>

theorem C3_sentinel_qid_unclosed_group:
  "qid_stream [block_of (Some [18446744073709551615]) [[0]]] = [18446744073709551615]
   \<and> group_ptr_m (info (row_loop example_ops 1000 [block_of (Some [18446744073709551615]) [[0]]]))
       = [0]
   \<and> group_size (row_loop example_ops 1000 [block_of (Some [18446744073709551615]) [[0]]]) = 1
   \<and> last (group_ptr_m (info (row_loop example_ops 1000
               [block_of (Some [18446744073709551615]) [[0]]])))
       < group_size (row_loop example_ops 1000 [block_of (Some [18446744073709551615]) [[0]]])
   \<and> map_sum id (group_ptr_m \<circ> info)
        (close_group (row_loop example_ops 1000 [block_of (Some [18446744073709551615]) [[0]]]))
       = Inr [0]
   \<and> map_sum id (group_ptr_m \<circ> saved_info)
        (CreateRowPage Split False example_ops 1000
           [block_of (Some [18446744073709551615]) [[0]]] ''a:b'')
       = Inr [0]
   \<and> map_sum id (group_ptr_m \<circ> saved_info)
        (CreateRowPage Split False example_ops 1000
           [block_of (Some [1, 18446744073709551615]) [[0], [0]]] ''a:b'')
       = Inr [0, 1]
   \<and> map_sum id (group_ptr_m \<circ> saved_info)
        (CreateRowPage Split False example_ops 1000
           [block_of (Some [18446744073709551615, 18446744073709551615]) [[0], [0]]] ''a:b'')
       = Inr [0, 1]"
  by code_simp

text \<open>
  C10. Whenever the loop has read a query id, and in particular whenever
  \<^verbatim>\<open>last_group_id\<close> is no longer the sentinel, \<^verbatim>\<open>group_ptr\<close> is not empty when the
  loop ends; the access \<^verbatim>\<open>group_ptr_.back()\<close> after the loop is therefore within
  bounds, and closing the last group never fails.
\<close>

theorem C10_group_ptr_back_in_bounds:
  "(qid_stream src \<noteq> [] \<longrightarrow> group_ptr_m (info (row_loop api k src)) \<noteq> [])
   \<and> (last_group_id (row_loop api k src) \<noteq> default_max \<longrightarrow>
        qid_stream src \<noteq> [] \<and> group_ptr_m (info (row_loop api k src)) \<noteq> [])
   \<and> (\<exists>st'. close_group (row_loop api k src) = Inr st')"
proof (intro conjI impI)
  show "group_ptr_m (info (row_loop api k src)) \<noteq> []" if "qid_stream src \<noteq> []"
    using row_loop_group_ptr_first[OF that, of api k] by auto
  show "qid_stream src \<noteq> []" if "last_group_id (row_loop api k src) \<noteq> default_max"
    using that by (rule row_loop_sentinel)
  show "group_ptr_m (info (row_loop api k src)) \<noteq> []"
    if "last_group_id (row_loop api k src) \<noteq> default_max"
    using row_loop_group_ptr_first[OF row_loop_sentinel[OF that], of api k] by auto
  show "\<exists>st'. close_group (row_loop api k src) = Inr st'"
    by (simp add: close_group_row_loop)
qed

theorem C10_group_ptr_back_in_bounds_witness:
  "qid_stream [block_of (Some [7, 7, 9]) [[0], [1], [2]]] \<noteq> []
   \<and> last_group_id (row_loop example_ops 1000 [block_of (Some [7, 7, 9]) [[0], [1], [2]]])
       \<noteq> default_max
   \<and> group_ptr_m (info (row_loop example_ops 1000 [block_of (Some [7, 7, 9]) [[0], [1], [2]]]))
       \<noteq> []
   \<and> (\<exists>st'. close_group (row_loop example_ops 1000 [block_of (Some [7, 7, 9]) [[0], [1], [2]]])
              = Inr st')"
proof -
  have q: "qid_stream [block_of (Some [7, 7, 9]) [[0], [1], [2]]] \<noteq> []"
    by code_simp
  have l: "last_group_id (row_loop example_ops 1000 [block_of (Some [7, 7, 9]) [[0], [1], [2]]])
       \<noteq> default_max"
    by code_simp
  from C10_group_ptr_back_in_bounds[of "[block_of (Some [7, 7, 9]) [[0], [1], [2]]]"
      example_ops 1000] q l
  show ?thesis by blast
qed

subsection \<open>The column count\<close>

lemma Max_insert_max:
  fixes a b :: "'a::linorder"
  assumes "finite S"
  shows "Max (insert (max a b) S) = Max (insert a (insert b S))"
proof (cases "S = {}")
  case True
  then show ?thesis by (simp add: max.commute)
next
  case False
  with assms show ?thesis by (simp add: max.assoc)
qed

lemma foldl_max_Max:
  fixes a :: "'a::linorder"
  shows "foldl (\<lambda>a x. max a (f x)) a xs = Max (insert a (f ` set xs))"
proof (induction xs arbitrary: a)
  case Nil
  then show ?case by simp
next
  case (Cons x xs)
  have "foldl (\<lambda>a x. max a (f x)) a (x # xs) = Max (insert (max a (f x)) (f ` set xs))"
    by (simp add: Cons)
  also have "\<dots> = Max (insert a (insert (f x) (f ` set xs)))"
    by (rule Max_insert_max) simp
  finally show ?case by simp
qed

lemma row_loop_num_col_Max:
  "num_col_m (info (row_loop api k src)) =
     Max (insert 0 ((\<lambda>i. ucast (i + 1)) ` set (index_stream src)))"
  by (simp add: row_loop_num_col foldl_max_Max)

lemma unat_ucast_32_64: "unat (ucast (w :: 32 word) :: 64 word) = unat w"
proof -
  have "unat w < 2 ^ 32" using unsigned_less[of w, where 'a = nat] by simp
  then have "unat w < 2 ^ 64" by simp
  then show ?thesis by (simp add: unsigned_ucast_eq take_bit_nat_eq_self)
qed

lemma unat_ucast_succ:
  fixes i :: "32 word"
  assumes "i \<noteq> 4294967295"
  shows "unat (ucast (i + 1) :: 64 word) = unat i + 1"
proof -
  have "unat i < 2 ^ 32" using unsigned_less[of i, where 'a = nat] by simp
  moreover have "unat i \<noteq> 4294967295"
    using assms by (simp add: word_unat_eq_iff)
  ultimately have "unat i + unat (1 :: 32 word) < 2 ^ LENGTH(32)" by simp
  then have "unat (i + 1) = unat i + 1"
    by (simp add: unat_add_lem[THEN iffD1])
  then show ?thesis by (simp add: unat_ucast_32_64)
qed

lemma mono_unat: "mono (unat :: 'a::len word \<Rightarrow> nat)"
  by (simp add: mono_def word_le_nat_alt)

lemma num_col_no_wrap:
  fixes idx :: "32 word list"
  assumes ne: "idx \<noteq> []" and nw: "\<forall>i \<in> set idx. i \<noteq> 4294967295"
  shows "unat (Max (insert (0 :: 64 word) ((\<lambda>i. ucast (i + 1)) ` set idx)))
           = 1 + Max (unat ` set idx)"
proof -
  let ?S = "(\<lambda>i. ucast (i + 1) :: 64 word) ` set idx"
  have fin: "finite ?S" and nes: "?S \<noteq> {}" using ne by simp_all
  have "unat (Max (insert 0 ?S)) = Max (unat ` insert 0 ?S)"
    by (rule mono_Max_commute[OF mono_unat]) (simp_all add: fin)
  also have "unat ` insert 0 ?S = insert 0 ((\<lambda>i. unat i + 1) ` set idx)"
    using nw by (auto simp: image_image unat_ucast_succ intro!: image_eqI)
  also have "Max (insert 0 ((\<lambda>i. unat i + 1) ` set idx)) = Max ((\<lambda>i. unat i + 1) ` set idx)"
    using ne by (subst Max_insert) simp_all
  also have "(\<lambda>i. unat i + 1) ` set idx = (\<lambda>n. 1 + n) ` (unat ` set idx)"
    by (simp add: image_image)
  also have "Max ((\<lambda>n. 1 + n) ` (unat ` set idx)) = 1 + Max (unat ` set idx)"
    using ne by (intro mono_Max_commute[symmetric]) (simp_all add: mono_def)
  finally show ?thesis .
qed

lemma close_group_other:
  assumes "close_group st = Inr st'"
  shows "num_col_m (info st') = num_col_m (info st)"
    and "num_row_m (info st') = num_row_m (info st)"
    and "qids_m (info st') = qids_m (info st)"
    and "page st' = page st" and "writer st' = writer st"
  using assms by (auto simp: close_group_def split: if_splits)

text \<open>
  C8 (as amended). The builder's \<^verbatim>\<open>num_col\<close> is the maximum, over all entries read,
  of the column index incremented on 32 bits and then widened to 64 bits, and 0 when no
  entry is read. It is \<open>1 + max(index)\<close> whenever no index equals \<open>2\<^sup>3\<^sup>2 - 1\<close>. The
  value is saved unchanged in the metadata.
\<close>

theorem C8_num_col:
  "num_col_m (info (row_loop api k src)) =
     Max (insert 0 ((\<lambda>i. ucast (i + 1)) ` set (index_stream src)))
   \<and> (index_stream src = [] \<longrightarrow> num_col_m (info (row_loop api k src)) = 0)
   \<and> (index_stream src \<noteq> [] \<and> (\<forall>i \<in> set (index_stream src). i \<noteq> 4294967295) \<longrightarrow>
        unat (num_col_m (info (row_loop api k src))) = 1 + Max (unat ` set (index_stream src)))
   \<and> (\<forall>r. CreateRowPage split win32 api k src cache_info = Inr r \<longrightarrow>
        num_col_m (saved_info r) = num_col_m (info (row_loop api k src)))"
proof (intro conjI impI allI)
  show "num_col_m (info (row_loop api k src)) =
     Max (insert 0 ((\<lambda>i. ucast (i + 1)) ` set (index_stream src)))"
    by (rule row_loop_num_col_Max)
  show "num_col_m (info (row_loop api k src)) = 0" if "index_stream src = []"
    using that by (simp add: row_loop_num_col)
  show "unat (num_col_m (info (row_loop api k src))) = 1 + Max (unat ` set (index_stream src))"
    if "index_stream src \<noteq> [] \<and> (\<forall>i \<in> set (index_stream src). i \<noteq> 4294967295)"
    using that num_col_no_wrap[of "index_stream src"] by (simp add: row_loop_num_col_Max)
  show "num_col_m (saved_info r) = num_col_m (info (row_loop api k src))"
    if "CreateRowPage split win32 api k src cache_info = Inr r" for r
    using that
    by (auto simp: CreateRowPage_def close_group_other(1) split: sum.splits if_splits)
qed

theorem C8_num_col_witness:
  "index_stream [block_of None [[0, 2], [1]]] = [0, 2, 1]
   \<and> 4294967295 \<notin> set (index_stream [block_of None [[0, 2], [1]]])
   \<and> unat (num_col_m (info (row_loop example_ops 1000 [block_of None [[0, 2], [1]]]))) = 3
   \<and> map_sum id (num_col_m \<circ> saved_info)
        (CreateRowPage Split False example_ops 1000 [block_of None [[0, 2], [1]]] ''a:b'')
       = Inr 3
   \<and> index_stream [block_of None [[], []]] = []
   \<and> num_col_m (info (row_loop example_ops 1000 [block_of None [[], []]])) = 0"
proof -
  let ?src = "[block_of None [[0, 2], [1]]]"
  have ix: "index_stream ?src = [0, 2, 1]" by code_simp
  have h: "index_stream ?src \<noteq> [] \<and> (\<forall>i \<in> set (index_stream ?src). i \<noteq> 4294967295)"
    unfolding ix by simp
  have mx: "1 + Max (unat ` set [0, 2, 1 :: 32 word]) = 3" by simp
  have full: "map_sum id (num_col_m \<circ> saved_info)
        (CreateRowPage Split False example_ops 1000 ?src ''a:b'') = Inr 3"
    by code_simp
  have e: "index_stream [block_of None [[], []]] = []" by code_simp
  from C8_num_col[of example_ops 1000 ?src] h
  have "unat (num_col_m (info (row_loop example_ops 1000 ?src))) = 1 + Max (unat ` set (index_stream ?src))"
    by blast
  then have a: "unat (num_col_m (info (row_loop example_ops 1000 ?src))) = 3"
    unfolding ix mx .
  from C8_num_col[of example_ops 1000 "[block_of None [[], []]]"] e
  have b: "num_col_m (info (row_loop example_ops 1000 [block_of None [[], []]])) = 0"
    by blast
  have n: "4294967295 \<notin> set (index_stream ?src)" unfolding ix by simp
  from ix n a full e b show ?thesis by blast
qed

text \<open>
  With the indices 5 and \<open>2\<^sup>3\<^sup>2 - 1\<close> the increment of the second wraps to 0 and
  \<^verbatim>\<open>num_col\<close> is 6: neither \<open>1 + max(index) = 2\<^sup>3\<^sup>2\<close> nor that sum computed on 32
  bits, which is 0.
\<close>

theorem C8_index_wrap_counterexample:
  "index_stream [block_of None [[5, 4294967295]]] = [5, 4294967295]
   \<and> num_col_m (info (row_loop example_ops 1000 [block_of None [[5, 4294967295]]])) = 6
   \<and> map_sum id (num_col_m \<circ> saved_info)
        (CreateRowPage Split False example_ops 1000 [block_of None [[5, 4294967295]]] ''a:b'')
       = Inr 6
   \<and> 1 + Max (unat ` set (index_stream [block_of None [[5, 4294967295]]])) = 4294967296
   \<and> (ucast (1 + Max (set (index_stream [block_of None [[5, 4294967295]]]))) :: 64 word) = 0"
proof -
  have ix: "index_stream [block_of None [[5, 4294967295]]] = [5, 4294967295]" by code_simp
  have a: "num_col_m (info (row_loop example_ops 1000 [block_of None [[5, 4294967295]]])) = 6"
    by code_simp
  have b: "map_sum id (num_col_m \<circ> saved_info)
        (CreateRowPage Split False example_ops 1000 [block_of None [[5, 4294967295]]] ''a:b'')
       = Inr 6"
    by code_simp
  have c: "1 + Max (unat ` set [5, 4294967295 :: 32 word]) = 4294967296" by simp
  have d: "(ucast (1 + Max (set [5, 4294967295 :: 32 word])) :: 64 word) = 0" by simp
  from ix a b c d show ?thesis by simp
qed

section \<open>Properties of the builders' results\<close>

subsection \<open>Which error a part can raise\<close>

lemma checked_shards_error:
  "checked_shards split win32 cache_info = Inl e \<Longrightarrow> e = BadCacheSpec \<or> e = OutOfBounds"
  by (auto simp: checked_shards_def GetCacheShards_def Let_def split: sum.splits if_splits)

lemma checked_shards_nonempty:
  "checked_shards split win32 cache_info = Inr shards \<Longrightarrow> shards \<noteq> []"
  by (auto simp: checked_shards_def split: sum.splits if_splits)

lemma push_batch_error:
  "push_batch api page_type nc pg b = Inl e \<Longrightarrow> e = UnknownPageType"
  by (auto simp: push_batch_def split: if_splits)

lemma page_loop_error:
  "page_loop api k page_type nc st bs = Inl e \<Longrightarrow> e = UnknownPageType"
proof (induction bs arbitrary: st)
  case Nil
  then show ?case by simp
next
  case (Cons b bs)
  obtain pg wr where st: "st = (pg, wr)" by (cases st)
  from Cons.prems show ?case
    unfolding st
    by (auto split: sum.splits if_splits dest: push_batch_error Cons.IH)
qed

subsection \<open>The check on the query ids\<close>

lemma CreateRowPage_resolved:
  assumes "checked_shards split win32 cache_info = Inr shards"
  shows "CreateRowPage split win32 api k src cache_info =
     (let st = row_loop api k src;
          ptr = (if last_group_id st \<noteq> default_max \<and> last (group_ptr_m (info st)) < group_size st
                 then group_ptr_m (info st) @ [group_size st] else group_ptr_m (info st))
      in if qid_stream src = []
            \<or> (of_nat (length (qid_stream src)) :: 64 word) = of_nat (sum_list (map size_rb src))
         then Inr \<lparr>name_info = shards ! 0,
                   name_shards = map (\<lambda>prefix. prefix @ ''.row.page'') shards,
                   pushed = flush_trailing api (page st) (writer st),
                   saved_info = (info st)\<lparr>group_ptr_m := ptr\<rparr>\<rparr>
         else Inl GroupInvariant)"
  using assms
  by (simp add: CreateRowPage_def close_group_row_loop Let_def row_loop_qids row_loop_num_row)

text \<open>
  C4 (as amended). Once the cache specification resolves, the streaming builder fails
  with \<open>GroupInvariant\<close> exactly when it has read query ids and their number differs
  from \<^verbatim>\<open>num_row\<close> (the number of rows read, on 64 bits); in particular whenever
  \<open>0 < |qids| < num_row < 2\<^sup>6\<^sup>4\<close>. The metadata it does save satisfy the check. The
  builder from a materialized matrix never raises \<open>GroupInvariant\<close>: it saves the
  source's metadata as they are.
\<close>

theorem C4_qid_invariant:
  "((\<exists>shards. checked_shards split win32 cache_info = Inr shards) \<longrightarrow>
      (CreateRowPage split win32 api k src cache_info = Inl GroupInvariant) =
        (qid_stream src \<noteq> []
         \<and> (of_nat (length (qid_stream src)) :: 64 word) \<noteq> of_nat (sum_list (map size_rb src))))
   \<and> ((\<exists>shards. checked_shards split win32 cache_info = Inr shards)
        \<and> 0 < length (qid_stream src)
        \<and> length (qid_stream src) < sum_list (map size_rb src)
        \<and> sum_list (map size_rb src) < 2 ^ 64 \<longrightarrow>
        CreateRowPage split win32 api k src cache_info = Inl GroupInvariant)
   \<and> qids_m (info (row_loop api k src)) = qid_stream src
   \<and> num_row_m (info (row_loop api k src)) = of_nat (sum_list (map size_rb src))
   \<and> (\<forall>r. CreateRowPage split win32 api k src cache_info = Inr r \<longrightarrow>
        qids_m (saved_info r) = []
        \<or> of_nat (length (qids_m (saved_info r))) = num_row_m (saved_info r))
   \<and> CreatePageFromDMatrix split win32 api k dm cache_info page_type \<noteq> Inl GroupInvariant
   \<and> (\<forall>r. CreatePageFromDMatrix split win32 api k dm cache_info page_type = Inr r \<longrightarrow>
        saved_info r = Info dm)"
proof (intro conjI impI allI)
  assume "\<exists>shards. checked_shards split win32 cache_info = Inr shards"
  then obtain shards where "checked_shards split win32 cache_info = Inr shards" ..
  from CreateRowPage_resolved[OF this, of api k src]
  show "(CreateRowPage split win32 api k src cache_info = Inl GroupInvariant) =
        (qid_stream src \<noteq> []
         \<and> (of_nat (length (qid_stream src)) :: 64 word) \<noteq> of_nat (sum_list (map size_rb src)))"
    by (simp add: Let_def)
next
  assume a: "(\<exists>shards. checked_shards split win32 cache_info = Inr shards)
        \<and> 0 < length (qid_stream src)
        \<and> length (qid_stream src) < sum_list (map size_rb src)
        \<and> sum_list (map size_rb src) < 2 ^ 64"
  then obtain shards where s: "checked_shards split win32 cache_info = Inr shards" by blast
  from a have "length (qid_stream src) < 2 ^ 64" by simp
  with a have "(of_nat (length (qid_stream src)) :: 64 word) \<noteq> of_nat (sum_list (map size_rb src))"
    by (simp add: word_of_nat_eq_iff take_bit_nat_eq_self)
  with a CreateRowPage_resolved[OF s, of api k src]
  show "CreateRowPage split win32 api k src cache_info = Inl GroupInvariant"
    by (simp add: Let_def)
next
  show "qids_m (info (row_loop api k src)) = qid_stream src" by (rule row_loop_qids)
  show "num_row_m (info (row_loop api k src)) = of_nat (sum_list (map size_rb src))"
    by (rule row_loop_num_row)
next
  fix r
  assume "CreateRowPage split win32 api k src cache_info = Inr r"
  then show "qids_m (saved_info r) = []
        \<or> of_nat (length (qids_m (saved_info r))) = num_row_m (saved_info r)"
    by (auto simp: CreateRowPage_def split: sum.splits if_splits)
next
  show "CreatePageFromDMatrix split win32 api k dm cache_info page_type \<noteq> Inl GroupInvariant"
    by (auto simp: CreatePageFromDMatrix_def split: sum.splits prod.splits
             dest: checked_shards_error page_loop_error)
next
  fix r
  assume "CreatePageFromDMatrix split win32 api k dm cache_info page_type = Inr r"
  then show "saved_info r = Info dm"
    by (auto simp: CreatePageFromDMatrix_def split: sum.splits prod.splits)
qed

theorem C4_qid_invariant_witness:
  "checked_shards Split False ''a:b'' = Inr [''a'', ''b'']
   \<and> 0 < length (qid_stream [block_of (Some [7, 7, 9]) [[0], [1], [2]], block_of None [[5]]])
   \<and> length (qid_stream [block_of (Some [7, 7, 9]) [[0], [1], [2]], block_of None [[5]]])
       < sum_list (map size_rb [block_of (Some [7, 7, 9]) [[0], [1], [2]], block_of None [[5]]])
   \<and> sum_list (map size_rb [block_of (Some [7, 7, 9]) [[0], [1], [2]], block_of None [[5]]])
       < 2 ^ 64
   \<and> CreateRowPage Split False example_ops 1000
        [block_of (Some [7, 7, 9]) [[0], [1], [2]], block_of None [[5]]] ''a:b''
       = Inl GroupInvariant"
proof -
  let ?src = "[block_of (Some [7, 7, 9]) [[0], [1], [2]], block_of None [[5]]]"
  have s0: "checked_shards Split False ''a:b'' = Inr [''a'', ''b'']"
    by code_simp
  then have s: "\<exists>shards. checked_shards Split False ''a:b'' = Inr shards" ..
  have q: "length (qid_stream ?src) = 3" by code_simp
  have n: "sum_list (map size_rb ?src) = 4" by code_simp
  from C4_qid_invariant[of Split False "''a:b''" example_ops 1000 ?src] s q n
  have "CreateRowPage Split False example_ops 1000 ?src ''a:b'' = Inl GroupInvariant"
    by simp
  with s0 q n show ?thesis by simp
qed

text \<open>
  The claim as first stated speaks of every builder. A matrix whose metadata hold one
  query id for two rows goes through \<^verbatim>\<open>CreatePageFromDMatrix\<close> and its metadata are
  saved.
\<close>

theorem C4_matrix_builder_counterexample:
  "CreatePageFromDMatrix Split False example_ops 1000
     \<lparr>Info = \<lparr>labels_m = [], weights_m = [], qids_m = [1], group_ptr_m = [],
               num_row_m = 2, num_col_m = 1, num_nonzero_m = 2\<rparr>,
      GetRowBatches = [\<lparr>base_rowid = 0, payload = [[0], [0]]\<rparr>]\<rparr>
     ''a'' ''.row.page''
   = Inr \<lparr>name_info = ''a'', name_shards = [''a.row.page''],
          pushed = [\<lparr>base_rowid = 0, payload = [[0], [0]]\<rparr>],
          saved_info = \<lparr>labels_m = [], weights_m = [], qids_m = [1], group_ptr_m = [],
                        num_row_m = 2, num_col_m = 1, num_nonzero_m = 2\<rparr>\<rparr>"
  by code_simp

subsection \<open>The dispatch on the page type\<close>







subsection \<open>The trailing page\<close>

lemma add_batch_writer:
  assumes "\<forall>p \<in> set (writer st). k \<le> MemCostBytes api p"
  shows "\<forall>p \<in> set (writer (add_batch api k st b)). k \<le> MemCostBytes api p"
  using assms
  by (auto simp: add_batch_def Let_def foldl_group_row_other split: option.splits)

lemma foldl_add_batch_writer:
  assumes "\<forall>p \<in> set (writer st). k \<le> MemCostBytes api p"
  shows "\<forall>p \<in> set (writer (foldl (add_batch api k) st src)). k \<le> MemCostBytes api p"
  using assms
proof (induction src arbitrary: st)
  case Nil
  then show ?case by simp
next
  case (Cons b src)
  from Cons.IH[OF add_batch_writer[OF Cons.prems]] show ?case by simp
qed

lemma row_loop_writer:
  "\<forall>p \<in> set (writer (row_loop api k src)). k \<le> MemCostBytes api p"
  unfolding row_loop_def
  by (rule foldl_add_batch_writer) (simp add: row_builder_new_def)

lemma page_loop_writer:
  assumes "page_loop api k page_type nc (pg, wr) bs = Inr (pg', wr')"
    and "\<forall>p \<in> set wr. k \<le> MemCostBytes api p"
  shows "\<forall>p \<in> set wr'. k \<le> MemCostBytes api p"
  using assms
proof (induction bs arbitrary: pg wr)
  case Nil
  then show ?case by simp
next
  case (Cons b bs)
  from Cons.prems(1) obtain pg1 where
    pb: "push_batch api page_type nc pg b = Inr pg1"
    by (auto split: sum.splits)
  show ?case
  proof (cases "k \<le> MemCostBytes api pg1")
    case True
    with Cons.prems(1) pb
    have "page_loop api k page_type nc (Clear api (Alloc api), wr @ [pg1]) bs = Inr (pg', wr')"
      by simp
    moreover from True Cons.prems(2) have "\<forall>p \<in> set (wr @ [pg1]). k \<le> MemCostBytes api p"
      by simp
    ultimately show ?thesis by (rule Cons.IH)
  next
    case False
    with Cons.prems(1) pb
    have "page_loop api k page_type nc (pg1, wr) bs = Inr (pg', wr')" by simp
    then show ?thesis using Cons.prems(2) by (rule Cons.IH)
  qed
qed

lemma flush_trailing_pages:
  assumes "\<forall>p \<in> set wr. k \<le> MemCostBytes api p"
  shows "\<forall>p \<in> set (flush_trailing api pg wr). k \<le> MemCostBytes api p \<or> data_Size api p \<noteq> 0"
  using assms by (auto simp: flush_trailing_def)

text \<open>
  What the epilogue does. When a builder succeeds, the pages it has handed to the writer
  are those flushed inside the loop, followed by the trailing page exactly when
  \<^verbatim>\<open>page->data.Size() != 0\<close>, that is, when the page holds at least one entry. So
  every page written either reached the size target or holds an entry.
\<close>

lemma trailing_page_flush:
  "(flush_trailing api pg0 wr0 = wr0 @ [pg0]) = (data_Size api pg0 \<noteq> 0)
   \<and> (data_Size api pg0 = 0 \<longrightarrow> flush_trailing api pg0 wr0 = wr0)
   \<and> (\<forall>r. CreateRowPage split win32 api k src cache_info = Inr r \<longrightarrow>
      pushed r = writer (row_loop api k src)
                 @ (if data_Size api (page (row_loop api k src)) \<noteq> 0
                    then [page (row_loop api k src)] else [])
      \<and> (\<forall>p \<in> set (pushed r). k \<le> MemCostBytes api p \<or> data_Size api p \<noteq> 0))
   \<and> (\<forall>r. CreatePageFromDMatrix split win32 api k dm cache_info page_type = Inr r \<longrightarrow>
      (\<exists>pg wr. page_loop api k page_type (num_col_m (Info dm)) (Clear api (Alloc api), [])
                  (GetRowBatches dm) = Inr (pg, wr)
          \<and> pushed r = wr @ (if data_Size api pg \<noteq> 0 then [pg] else []))
      \<and> (\<forall>p \<in> set (pushed r). k \<le> MemCostBytes api p \<or> data_Size api p \<noteq> 0))"
proof (intro conjI allI impI)
  show "(flush_trailing api pg0 wr0 = wr0 @ [pg0]) = (data_Size api pg0 \<noteq> 0)"
    by (simp add: flush_trailing_def)
  show "flush_trailing api pg0 wr0 = wr0" if "data_Size api pg0 = 0"
    using that by (simp add: flush_trailing_def)
next
  fix r
  assume a: "CreateRowPage split win32 api k src cache_info = Inr r"
  then obtain st where c: "close_group (row_loop api k src) = Inr st"
    and p: "pushed r = flush_trailing api (page st) (writer st)"
    by (auto simp: CreateRowPage_def split: sum.splits if_splits)
  note o = close_group_other[OF c]
  show "pushed r = writer (row_loop api k src)
                 @ (if data_Size api (page (row_loop api k src)) \<noteq> 0
                    then [page (row_loop api k src)] else [])"
    by (simp add: p o flush_trailing_def)
  show "\<forall>p \<in> set (pushed r). k \<le> MemCostBytes api p \<or> data_Size api p \<noteq> 0"
    unfolding p o by (rule flush_trailing_pages[OF row_loop_writer])
next
  fix r
  assume a: "CreatePageFromDMatrix split win32 api k dm cache_info page_type = Inr r"
  then obtain pg wr where
    l: "page_loop api k page_type (num_col_m (Info dm)) (Clear api (Alloc api), [])
          (GetRowBatches dm) = Inr (pg, wr)"
    and p: "pushed r = flush_trailing api pg wr"
    by (auto simp: CreatePageFromDMatrix_def split: sum.splits prod.splits)
  show "\<exists>pg wr. page_loop api k page_type (num_col_m (Info dm)) (Clear api (Alloc api), [])
                  (GetRowBatches dm) = Inr (pg, wr)
          \<and> pushed r = wr @ (if data_Size api pg \<noteq> 0 then [pg] else [])"
    using l p by (auto simp: flush_trailing_def)
  from page_loop_writer[OF l] have "\<forall>p \<in> set wr. k \<le> MemCostBytes api p" by simp
  then show "\<forall>p \<in> set (pushed r). k \<le> MemCostBytes api p \<or> data_Size api p \<noteq> 0"
    unfolding p by (rule flush_trailing_pages)
qed

lemma trailing_page_flush_example:
  "CreateRowPage Split False example_ops 1000 [block_of None [[0, 2], [1]]] ''a''
     = Inr \<lparr>name_info = ''a'', name_shards = [''a.row.page''],
            pushed = [\<lparr>base_rowid = 0, payload = [[0, 2], [1]]\<rparr>],
            saved_info = \<lparr>labels_m = [], weights_m = [], qids_m = [], group_ptr_m = [],
                          num_row_m = 2, num_col_m = 3, num_nonzero_m = 3\<rparr>\<rparr>
   \<and> [\<lparr>base_rowid = 0, payload = [[0, 2], [1]]\<rparr>]
       = writer (row_loop example_ops 1000 [block_of None [[0, 2], [1]]])
         @ (if data_Size example_ops (page (row_loop example_ops 1000 [block_of None [[0, 2], [1]]]))
               \<noteq> 0
            then [page (row_loop example_ops 1000 [block_of None [[0, 2], [1]]])] else [])
   \<and> CreateRowPage Split False example_ops 1000 [block_of None [[], []]] ''a''
     = Inr \<lparr>name_info = ''a'', name_shards = [''a.row.page''], pushed = [],
            saved_info = \<lparr>labels_m = [], weights_m = [], qids_m = [], group_ptr_m = [],
                          num_row_m = 2, num_col_m = 0, num_nonzero_m = 0\<rparr>\<rparr>
   \<and> data_Size example_ops (page (row_loop example_ops 1000 [block_of None [[], []]])) = 0
   \<and> CreatePageFromDMatrix Split False example_ops 1000
        \<lparr>Info = \<lparr>labels_m = [], weights_m = [], qids_m = [], group_ptr_m = [],
                  num_row_m = 2, num_col_m = 3, num_nonzero_m = 3\<rparr>,
         GetRowBatches = [\<lparr>base_rowid = 0, payload = [[2, 0], [1]]\<rparr>]\<rparr>
        ''a'' ''.row.page''
     = Inr \<lparr>name_info = ''a'', name_shards = [''a.row.page''],
            pushed = [\<lparr>base_rowid = 0, payload = [[2, 0], [1]]\<rparr>],
            saved_info = \<lparr>labels_m = [], weights_m = [], qids_m = [], group_ptr_m = [],
                          num_row_m = 2, num_col_m = 3, num_nonzero_m = 3\<rparr>\<rparr>
   \<and> data_Size example_ops \<lparr>base_rowid = 0, payload = [[2, 0], [1 :: 32 word]]\<rparr> \<noteq> 0
   \<and> \<not> 1000 \<le> MemCostBytes example_ops \<lparr>base_rowid = 0, payload = [[2, 0], [1 :: 32 word]]\<rparr>"
proof -
  let ?src = "[block_of None [[0, 2], [1]]]"
  let ?r1 = "\<lparr>name_info = ''a'', name_shards = [''a.row.page''],
            pushed = [\<lparr>base_rowid = 0, payload = [[0, 2], [1 :: 32 word]]\<rparr>],
            saved_info = \<lparr>labels_m = [], weights_m = [], qids_m = [], group_ptr_m = [],
                          num_row_m = 2, num_col_m = 3, num_nonzero_m = 3\<rparr>\<rparr>
            :: (32 word list list, nat) cache_files"
  let ?dm = "\<lparr>Info = \<lparr>labels_m = [], weights_m = [], qids_m = [], group_ptr_m = [],
                  num_row_m = 2, num_col_m = 3, num_nonzero_m = 3\<rparr>,
         GetRowBatches = [\<lparr>base_rowid = 0, payload = [[2, 0], [1 :: 32 word]]\<rparr>]\<rparr>
         :: (32 word list list, nat) DMatrix"
  let ?r3 = "\<lparr>name_info = ''a'', name_shards = [''a.row.page''],
            pushed = [\<lparr>base_rowid = 0, payload = [[2, 0], [1 :: 32 word]]\<rparr>],
            saved_info = \<lparr>labels_m = [], weights_m = [], qids_m = [], group_ptr_m = [],
                          num_row_m = 2, num_col_m = 3, num_nonzero_m = 3\<rparr>\<rparr>
            :: (32 word list list, nat) cache_files"
  have e1: "CreateRowPage Split False example_ops 1000 ?src ''a'' = Inr ?r1"
    by code_simp
  have e2: "CreateRowPage Split False example_ops 1000 [block_of None [[], []]] ''a''
     = Inr \<lparr>name_info = ''a'', name_shards = [''a.row.page''], pushed = [],
            saved_info = \<lparr>labels_m = [], weights_m = [], qids_m = [], group_ptr_m = [],
                          num_row_m = 2, num_col_m = 0, num_nonzero_m = 0\<rparr>\<rparr>"
    by code_simp
  have d2: "data_Size example_ops (page (row_loop example_ops 1000 [block_of None [[], []]])) = 0"
    by code_simp
  have e3: "CreatePageFromDMatrix Split False example_ops 1000 ?dm ''a'' ''.row.page'' = Inr ?r3"
    by code_simp
  from trailing_page_flush[of example_ops _ _ Split False 1000 ?src "''a''" ?dm "''.row.page''"] e1 e3
  have "pushed ?r1 = writer (row_loop example_ops 1000 ?src)
         @ (if data_Size example_ops (page (row_loop example_ops 1000 ?src)) \<noteq> 0
            then [page (row_loop example_ops 1000 ?src)] else [])"
    and "\<forall>p \<in> set (pushed ?r3). 1000 \<le> MemCostBytes example_ops p \<or> data_Size example_ops p \<noteq> 0"
    by blast+
  moreover have "\<not> 1000 \<le> MemCostBytes example_ops \<lparr>base_rowid = 0, payload = [[2, 0], [1 :: 32 word]]\<rparr>"
    by code_simp
  ultimately show ?thesis using e1 e2 d2 e3 by simp
qed

text \<open>
  C9. The claim has the trailing page written if and only if it is non-empty. The code
  tests \<^verbatim>\<open>page->data.Size() != 0\<close>, the number of entries, where the size of a page
  is its number of rows. A block of two rows without entries leaves a trailing page of
  two rows: it is non-empty, \<^verbatim>\<open>num_row = 2\<close> is saved in the metadata, and no page is
  written, so the two rows are in no page file. When the same page reaches the size
  target inside the loop (here with a target of 8 bytes) it is written. The builder from
  a materialized matrix drops a batch of two rows without entries in the same way.
\<close>

theorem C9_entryless_trailing_page_dropped:
  "page (row_loop example_ops 1000 [block_of None [[], []]])
     = \<lparr>base_rowid = 0, payload = [[], []]\<rparr>
   \<and> length (payload (page (row_loop example_ops 1000 [block_of None [[], []]]))) = 2
   \<and> data_Size example_ops (page (row_loop example_ops 1000 [block_of None [[], []]])) = 0
   \<and> CreateRowPage Split False example_ops 1000 [block_of None [[], []]] ''a''
       = Inr \<lparr>name_info = ''a'', name_shards = [''a.row.page''], pushed = [],
              saved_info = \<lparr>labels_m = [], weights_m = [], qids_m = [], group_ptr_m = [],
                            num_row_m = 2, num_col_m = 0, num_nonzero_m = 0\<rparr>\<rparr>
   \<and> CreateRowPage Split False example_ops 8 [block_of None [[], []]] ''a''
       = Inr \<lparr>name_info = ''a'', name_shards = [''a.row.page''],
              pushed = [\<lparr>base_rowid = 0, payload = [[], []]\<rparr>],
              saved_info = \<lparr>labels_m = [], weights_m = [], qids_m = [], group_ptr_m = [],
                            num_row_m = 2, num_col_m = 0, num_nonzero_m = 0\<rparr>\<rparr>
   \<and> CreatePageFromDMatrix Split False example_ops 1000
        \<lparr>Info = \<lparr>labels_m = [], weights_m = [], qids_m = [], group_ptr_m = [],
                  num_row_m = 2, num_col_m = 0, num_nonzero_m = 0\<rparr>,
         GetRowBatches = [\<lparr>base_rowid = 0, payload = [[], []]\<rparr>]\<rparr>
        ''a'' ''.row.page''
       = Inr \<lparr>name_info = ''a'', name_shards = [''a.row.page''], pushed = [],
              saved_info = \<lparr>labels_m = [], weights_m = [], qids_m = [], group_ptr_m = [],
                            num_row_m = 2, num_col_m = 0, num_nonzero_m = 0\<rparr>\<rparr>"
  by code_simp

subsection \<open>The shard resolver\<close>

text \<open>
  A reader that the constructor returns has at least one shard and stands at the start of
  a pass, so the theorems on the cursor apply to it.
\<close>

lemma SparsePageSource_new_ready:
  assumes "SparsePageSource_new split win32 pages_of_file cache_info page_type = Inr s"
  shows "prefetchers_m s \<noteq> []" and "BeforeFirst s = s"
proof -
  from assms obtain shards where
    c: "checked_shards split win32 cache_info = Inr shards"
    and s: "s = \<lparr>base_rowid_m = 0, page_m = None, clock_ptr_m = 0,
               prefetchers_m =
                 map (\<lambda>prefix. \<lparr>stream = pages_of_file (prefix @ page_type),
                                 consumed = 0, free_cells = 0\<rparr>) shards\<rparr>"
    by (auto simp: SparsePageSource_new_def split: sum.splits)
  from checked_shards_nonempty[OF c] show "prefetchers_m s \<noteq> []"
    by (simp add: s)
  show "BeforeFirst s = s"
    by (simp add: s BeforeFirst_def iter_BeforeFirst_def comp_def)
qed

lemma GetCacheShards_plain:
  assumes "\<not> (win32 \<and> 2 \<le> length cache_info \<and> isalpha (cache_info ! 0)
              \<and> cache_info ! 1 = CHR '':'')"
  shows "GetCacheShards split win32 cache_info = Inr (split cache_info CHR '':'')"
  using assms by (auto simp: GetCacheShards_def)

lemma GetCacheShards_drive:
  assumes "win32" "2 \<le> length cache_info" "isalpha (cache_info ! 0)"
    "cache_info ! 1 = CHR '':''" "split (drop 2 cache_info) CHR '':'' = item # items"
  shows "GetCacheShards split win32 cache_info = Inr ((take 2 cache_info @ item) # items)"
  using assms by (simp add: GetCacheShards_def)

lemma checked_shards_empty:
  assumes "GetCacheShards split win32 cache_info = Inr []"
  shows "checked_shards split win32 cache_info = Inl BadCacheSpec"
  using assms by (simp add: checked_shards_def)

lemma resolver_examples:
  "checked_shards Split False ''a:b:c'' = Inr [''a'', ''b'', ''c'']"
  "checked_shards Split True ''C:/tmp/x:y'' = Inr [''C:/tmp/x'', ''y'']"
  "checked_shards Split False ''C:/tmp/x:y'' = Inr [''C'', ''/tmp/x'', ''y'']"
  "checked_shards Split False [] = Inl BadCacheSpec"
  "checked_shards Split True [] = Inl BadCacheSpec"
  by code_simp+

text \<open>
  C5. On a drive-letter platform the specification \<open>C:\<close> has a drive prefix and nothing
  after it. A splitter that finds no prefix in the empty string, as the spec requires,
  returns the empty vector, and the resolver then writes to its element 0: an access out
  of bounds, neither a list whose first prefix holds \<open>C:\<close> nor the fatal
  \<open>BadCacheSpec\<close>.
\<close>

theorem C5_drive_prefix_alone_out_of_bounds:
  "\<forall>split. split [] CHR '':'' = [] \<longrightarrow>
     GetCacheShards split True ''C:'' = Inl OutOfBounds
     \<and> checked_shards split True ''C:'' = Inl OutOfBounds"
  by (simp add: GetCacheShards_def checked_shards_def isalpha_def)

theorem C5_drive_prefix_alone_out_of_bounds_witness:
  "Split [] CHR '':'' = []
   \<and> GetCacheShards Split True ''C:'' = Inl OutOfBounds
   \<and> checked_shards Split True ''C:'' = Inl OutOfBounds"
  using C5_drive_prefix_alone_out_of_bounds[rule_format, of Split] by simp

end
